theory Spec2Isabelle
  imports Main "HOL-Library.Word" "HOL-Library.Signed_Division"
begin

unbundle bit_operations_syntax

section \<open>The cube controller of dave.c\<close>

text \<open>
  A shallow embedding of \<^verbatim>\<open>dave.c\<close>, the firmware of an 8x8x8 LED cube on an
  stc12/8051 controller compiled with SDCC: \<^verbatim>\<open>unsigned char\<close> is 8 bits wide,
  \<^verbatim>\<open>unsigned int\<close> is 16 bits wide.
\<close>

type_synonym byte = "8 word"

subsection \<open>State\<close>

text \<open>
  The globals and the function-scoped statics of the program in one record:
  \<^item> \<open>display\<close> is \<^verbatim>\<open>display[8][8]\<close>, indexed \<^verbatim>\<open>display[z][y]\<close>, one bit per x;
  \<^item> \<open>mode\<close> is the global \<^verbatim>\<open>mode\<close>;
  \<^item> \<open>pause_flag\<close>, \<open>p41key\<close>, \<open>p42key\<close>, \<open>p43key\<close> are the statics of
    \<^verbatim>\<open>pause()\<close> (the static named \<^verbatim>\<open>pause\<close> is \<open>pause_flag\<close> here); they only
    ever hold 0 or 1 and are only tested with \<^verbatim>\<open>!\<close>, so they are booleans;
  \<^item> \<open>layer\<close> is the static of \<^verbatim>\<open>timer_isr()\<close>;
  \<^item> \<open>elapsed\<close> counts the calls of \<^verbatim>\<open>delay5us()\<close>, the only effect of the
    busy-wait loops.
\<close>

record cube =
  display :: "byte list list"
  mode :: int
  pause_flag :: bool
  p41key :: bool
  p42key :: bool
  p43key :: bool
  layer :: byte
  elapsed :: nat

text \<open>The shape the declaration \<^verbatim>\<open>display[8][8]\<close> gives the frame buffer.\<close>

definition wf_display :: "byte list list \<Rightarrow> bool" where
  "wf_display d = (length d = 8 \<and> list_all (\<lambda>row. length row = 8) d)"

text \<open>
  The state at reset: every static is initialised to 0; the frame buffer lives in
  external RAM and holds whatever it held.
\<close>

definition init_cube :: "byte list list \<Rightarrow> cube" where
  "init_cube d = \<lparr> display = d, mode = 0, pause_flag = False, p41key = False,
     p42key = False, p43key = False, layer = 0, elapsed = 0 \<rparr>"

subsection \<open>Delays\<close>

definition delay5us :: "cube \<Rightarrow> cube" where
  "delay5us s = s\<lparr>elapsed := elapsed s + 1\<rparr>"

text \<open>\<^verbatim>\<open>while (i--) delay5us();\<close> runs \<open>i\<close> times.\<close>

definition delay :: "16 word \<Rightarrow> cube \<Rightarrow> cube" where
  "delay i s = ((delay5us ^^ unat i) s)"

subsection \<open>Display primitives\<close>

text \<open>\<^verbatim>\<open>display[z][y] = b\<close>.\<close>

definition store :: "nat \<Rightarrow> nat \<Rightarrow> byte \<Rightarrow> cube \<Rightarrow> cube" where
  "store z y b s = s\<lparr>display := (display s)[z := (display s ! z)[y := b]]\<rparr>"

text \<open>\<^verbatim>\<open>display[z][y]\<close>.\<close>

definition fetch :: "cube \<Rightarrow> nat \<Rightarrow> nat \<Rightarrow> byte" where
  "fetch s z y = display s ! z ! y"

text \<open>
  \<^verbatim>\<open>128>>x\<close> for an \<^verbatim>\<open>unsigned char x\<close>: the shift is done on the promoted
  \<^verbatim>\<open>int\<close>, and its value, at most 128, is the same in 8 bits.
\<close>

definition xbit :: "byte \<Rightarrow> byte" where
  "xbit x = drop_bit (unat x) 128"

definition set_all :: "byte \<Rightarrow> cube \<Rightarrow> cube" where
  "set_all v s =
     fold (\<lambda>j. fold (\<lambda>i. store j i (if v \<noteq> 0 then 0 else 0xff)) [0..<8]) [0..<8] s"

definition set_x_plane :: "byte \<Rightarrow> byte \<Rightarrow> cube \<Rightarrow> cube" where
  "set_x_plane x v s =
     fold (\<lambda>j. fold (\<lambda>i t.
        if v \<noteq> 0 then store j i (fetch t j i AND NOT (xbit x)) t
        else store j i (fetch t j i OR xbit x) t) [0..<8]) [0..<8] s"

definition set_y_plane :: "byte \<Rightarrow> byte \<Rightarrow> cube \<Rightarrow> cube" where
  "set_y_plane y v s =
     fold (\<lambda>j. if v \<noteq> 0 then store j (unat y) 0 else store j (unat y) 0xff) [0..<8] s"

definition set_z_plane :: "byte \<Rightarrow> byte \<Rightarrow> cube \<Rightarrow> cube" where
  "set_z_plane z v s =
     fold (\<lambda>i. if v \<noteq> 0 then store (unat z) i 0 else store (unat z) i 0xff) [0..<8] s"

definition set_point :: "byte \<Rightarrow> byte \<Rightarrow> byte \<Rightarrow> byte \<Rightarrow> cube \<Rightarrow> cube" where
  "set_point x y z v s =
     (if v \<noteq> 0 then store (unat z) (unat y) (fetch s (unat z) (unat y) AND NOT (xbit x)) s
      else store (unat z) (unat y) (fetch s (unat z) (unat y) OR xbit x) s)"

text \<open>\<^verbatim>\<open>for (z=0; z<8; z++) display[z][y] = ~c[z];\<close>\<close>

definition character_on_y :: "byte \<Rightarrow> byte list \<Rightarrow> cube \<Rightarrow> cube" where
  "character_on_y y c s = fold (\<lambda>z. store z (unat y) (NOT (c ! z))) [0..<8] s"

text \<open>
  Whether the LED at (x, y, z) is lit. The source has no read function; this follows
  the comment on \<^verbatim>\<open>display\<close> (the most significant bit of \<^verbatim>\<open>display[z][y]\<close> is the
  leftmost x, and a 0 bit turns the LED on) and the masks \<^verbatim>\<open>128>>x\<close> of the
  primitives.
\<close>

definition led_on :: "cube \<Rightarrow> nat \<Rightarrow> nat \<Rightarrow> nat \<Rightarrow> bool" where
  "led_on s x y z = (\<not> bit (fetch s z y) (7 - x))"

subsection \<open>Buttons and the wait primitive\<close>

text \<open>
  The buttons are the bits 1, 2 and 3 of port P4, active low: a 0 bit is a pressed
  button. Each read of a port bit is a read of the hardware; the model takes the port
  values as a list of samples, one for each read in the order the program makes them.
  A function that polls returns \<open>Returned r inp s\<close> with its return value, the samples
  not yet read and the new state, or \<open>Starved s\<close> when the samples ran out while it
  was still polling, in state \<open>s\<close>.
\<close>

definition P4_1 :: "byte \<Rightarrow> bool" where
  "P4_1 v = bit v 1"

definition P4_2 :: "byte \<Rightarrow> bool" where
  "P4_2 v = bit v 2"

definition P4_3 :: "byte \<Rightarrow> bool" where
  "P4_3 v = bit v 3"

datatype 'a result = Returned 'a "byte list" cube | Starved cube

text \<open>
  The body of the \<^verbatim>\<open>while (1)\<close> of \<^verbatim>\<open>pause()\<close> up to its exit test: one
  poll of button 1 on the sample \<open>v\<close>.
\<close>

definition button1 :: "byte \<Rightarrow> cube \<Rightarrow> cube" where
  "button1 v s =
     (if \<not> P4_1 v then
        (if \<not> p41key s
         then delay 100 (s\<lparr>p41key := True, pause_flag := \<not> pause_flag s\<rparr>)
         else s)
      else s\<lparr>p41key := False\<rparr>)"

text \<open>The \<^verbatim>\<open>while (1)\<close> itself: it is left when the pause flag is clear.\<close>

fun pause_gate :: "byte list \<Rightarrow> cube \<Rightarrow> unit result" where
  "pause_gate [] s = Starved s"
| "pause_gate (v # vs) s =
     (let s1 = button1 v s
      in if \<not> pause_flag s1 then Returned () vs s1 else pause_gate vs s1)"

text \<open>
  Button 2, with whether the function returns 1 here. The source is
  \<^verbatim>\<open>if (!P4_2) if (!p42key) {...; return(1);} else p42key = 0;\<close>
  and C attaches the \<^verbatim>\<open>else\<close> to the inner \<^verbatim>\<open>if\<close>.
\<close>

definition button2 :: "byte \<Rightarrow> cube \<Rightarrow> bool \<times> cube" where
  "button2 v s =
     (if \<not> P4_2 v then
        (if \<not> p42key s
         then (True, delay 100 (s\<lparr>p42key := True, mode := 0\<rparr>))
         else (False, s\<lparr>p42key := False\<rparr>))
      else (False, s))"

text \<open>
  Button 3. \<^verbatim>\<open>%\<close> truncates towards zero, as \<open>smod\<close> does; \<open>mode\<close> is a 16-bit
  \<^verbatim>\<open>int\<close> that the program keeps in 0..4, far from overflow.
\<close>

definition button3 :: "byte \<Rightarrow> cube \<Rightarrow> bool \<times> cube" where
  "button3 v s =
     (if \<not> P4_3 v then
        (if \<not> p43key s
         then (True, delay 100 (s\<lparr>p43key := True, mode := (mode s + 1) smod 5\<rparr>))
         else (False, s))
      else (False, s\<lparr>p43key := False\<rparr>))"

text \<open>
  The body of \<^verbatim>\<open>while (i--)\<close>: one poll of the three buttons. The value is
  whether the body executed \<^verbatim>\<open>return(1)\<close>.
\<close>

definition poll :: "byte list \<Rightarrow> cube \<Rightarrow> bool result" where
  "poll inp s =
     (case pause_gate inp (delay5us s) of
        Starved t \<Rightarrow> Starved t
      | Returned _ inp1 s1 \<Rightarrow>
          (case inp1 of
             [] \<Rightarrow> Starved s1
           | v2 # inp2 \<Rightarrow>
               (case button2 v2 s1 of
                  (True, s2) \<Rightarrow> Returned True inp2 s2
                | (False, s2) \<Rightarrow>
                    (case inp2 of
                       [] \<Rightarrow> Starved s2
                     | v3 # inp3 \<Rightarrow>
                         (case button3 v3 s2 of
                            (fired, s3) \<Rightarrow> Returned fired inp3 s3)))))"

text \<open>\<^verbatim>\<open>while (i--) { ... } return 0;\<close> with \<open>n\<close> rounds left.\<close>

fun pause_loop :: "nat \<Rightarrow> byte list \<Rightarrow> cube \<Rightarrow> int result" where
  "pause_loop 0 inp s = Returned 0 inp s"
| "pause_loop (Suc n) inp s =
     (case poll inp s of
        Starved t \<Rightarrow> Starved t
      | Returned fired inp1 s1 \<Rightarrow>
          if fired then Returned 1 inp1 s1 else pause_loop n inp1 s1)"

definition pause :: "16 word \<Rightarrow> byte list \<Rightarrow> cube \<Rightarrow> int result" where
  "pause i inp s = pause_loop (unat i) inp s"

subsection \<open>Display routines\<close>

definition all :: "byte list \<Rightarrow> cube \<Rightarrow> int result" where
  "all inp s =
     (case pause 60000 inp (set_all 1 s) of
        Starved t \<Rightarrow> Starved t
      | Returned r inp1 s1 \<Rightarrow>
          if r \<noteq> 0 then Returned 1 inp1 s1
          else (case pause 60000 inp1 (set_all 0 s1) of
                  Starved t \<Rightarrow> Starved t
                | Returned r inp2 s2 \<Rightarrow>
                    if r \<noteq> 0 then Returned 1 inp2 s2 else Returned 0 inp2 s2))"

text \<open>
  The loops of the other routines have one shape,
  \<^verbatim>\<open>for (k ...) { on(k); if (pause(i)) return(1); off(k); }\<close>,
  here over the list \<open>ks\<close> of the values the loop variables take, in order.
\<close>

fun sweep :: "16 word \<Rightarrow> ('k \<Rightarrow> cube \<Rightarrow> cube) \<Rightarrow> ('k \<Rightarrow> cube \<Rightarrow> cube) \<Rightarrow> 'k list \<Rightarrow>
    byte list \<Rightarrow> cube \<Rightarrow> int result" where
  "sweep i on off [] inp s = Returned 0 inp s"
| "sweep i on off (k # ks) inp s =
     (case pause i inp (on k s) of
        Starved t \<Rightarrow> Starved t
      | Returned r inp1 s1 \<Rightarrow>
          if r \<noteq> 0 then Returned 1 inp1 s1 else sweep i on off ks inp1 (off k s1))"

definition planes :: "byte list \<Rightarrow> cube \<Rightarrow> int result" where
  "planes inp s =
     (case sweep 10000 (\<lambda>x. set_x_plane (of_nat x) 1) (\<lambda>x. set_x_plane (of_nat x) 0)
             [0..<8] inp (set_all 0 s) of
        Starved t \<Rightarrow> Starved t
      | Returned r inp1 s1 \<Rightarrow>
          if r \<noteq> 0 then Returned 1 inp1 s1
          else (case sweep 10000 (\<lambda>y. set_y_plane (of_nat y) 1) (\<lambda>y. set_y_plane (of_nat y) 0)
                       [0..<8] inp1 s1 of
                  Starved t \<Rightarrow> Starved t
                | Returned r inp2 s2 \<Rightarrow>
                    if r \<noteq> 0 then Returned 1 inp2 s2
                    else sweep 10000 (\<lambda>z. set_z_plane (of_nat z) 1)
                           (\<lambda>z. set_z_plane (of_nat z) 0) [0..<8] inp2 s2))"

text \<open>The three nested loops of \<^verbatim>\<open>points()\<close>: x outermost, z innermost.\<close>

definition point_order :: "(nat \<times> nat \<times> nat) list" where
  "point_order = concat (map (\<lambda>x. concat (map (\<lambda>y. map (\<lambda>z. (x, y, z)) [0..<8]) [0..<8])) [0..<8])"

definition points :: "byte list \<Rightarrow> cube \<Rightarrow> int result" where
  "points inp s =
     sweep 1000 (\<lambda>(x, y, z). set_point (of_nat x) (of_nat y) (of_nat z) 1)
       (\<lambda>(x, y, z). set_point (of_nat x) (of_nat y) (of_nat z) 0)
       point_order inp (set_all 0 s)"

text \<open>The table \<^verbatim>\<open>dave[4][8]\<close> local to \<^verbatim>\<open>dave()\<close>.\<close>

definition dave_glyphs :: "byte list list" where
  "dave_glyphs =
     [[0xf8, 0xfc, 0xc6, 0xc3, 0xc3, 0xc6, 0xfc, 0xf8],
      [0xc3, 0xc3, 0xff, 0xff, 0xc3, 0x66, 0x3c, 0x18],
      [0x18, 0x3c, 0x66, 0xc3, 0xc3, 0xc3, 0xc3, 0xc3],
      [0xff, 0xff, 0xc0, 0xf8, 0xf8, 0xc0, 0xff, 0xff]]"

definition glyph_order :: "(nat \<times> nat) list" where
  "glyph_order = concat (map (\<lambda>c. map (\<lambda>y. (c, y)) [0..<8]) [0..<4])"

definition dave :: "byte list \<Rightarrow> cube \<Rightarrow> int result" where
  "dave inp s =
     (case sweep 5000 (\<lambda>(c, y). character_on_y (of_nat y) (dave_glyphs ! c))
             (\<lambda>(c, y). set_y_plane (of_nat y) 0) glyph_order inp (set_all 0 s) of
        Starved t \<Rightarrow> Starved t
      | Returned r inp1 s1 \<Rightarrow>
          if r \<noteq> 0 then Returned 1 inp1 s1
          else (case pause 30000 inp1 (set_all 1 s1) of
                  Starved t \<Rightarrow> Starved t
                | Returned r inp2 s2 \<Rightarrow>
                    if r \<noteq> 0 then Returned 1 inp2 s2 else Returned 0 inp2 s2))"

subsection \<open>The main loop\<close>

text \<open>
  One pass of the \<^verbatim>\<open>while(1)\<close> of \<^verbatim>\<open>main()\<close>: the \<^verbatim>\<open>switch (mode)\<close>. The
  return values of the routines are dropped, except in case 4, where a non-zero value
  leaves the case. A mode outside 0..4 matches no case.
\<close>

fun dropped :: "int result \<Rightarrow> unit result" where
  "dropped (Returned r inp s) = Returned () inp s"
| "dropped (Starved t) = Starved t"

definition dispatch :: "byte list \<Rightarrow> cube \<Rightarrow> unit result" where
  "dispatch inp s =
     (if mode s = 0 then dropped (dave inp s)
      else if mode s = 1 then dropped (points inp s)
      else if mode s = 2 then dropped (planes inp s)
      else if mode s = 3 then dropped (all inp s)
      else if mode s = 4 then
        (case dave inp s of
           Starved t \<Rightarrow> Starved t
         | Returned r inp1 s1 \<Rightarrow>
             if r \<noteq> 0 then Returned () inp1 s1
             else (case points inp1 s1 of
                     Starved t \<Rightarrow> Starved t
                   | Returned r inp2 s2 \<Rightarrow>
                       if r \<noteq> 0 then Returned () inp2 s2
                       else (case planes inp2 s2 of
                               Starved t \<Rightarrow> Starved t
                             | Returned r inp3 s3 \<Rightarrow>
                                 if r \<noteq> 0 then Returned () inp3 s3
                                 else dropped (all inp3 s3))))
      else Returned () inp s)"

text \<open>
  The \<^verbatim>\<open>while(1)\<close> never ends; \<open>main_loop n\<close> makes \<open>n\<close> passes and returns
  where it stands, or stops where the samples ran out. Before the loop \<^verbatim>\<open>main()\<close>
  calls \<^verbatim>\<open>sinter()\<close> and sets \<^verbatim>\<open>P4 = 0xff\<close>: writes to special function
  registers, which are not part of the state here.
\<close>

fun main_loop :: "nat \<Rightarrow> byte list \<Rightarrow> cube \<Rightarrow> unit result" where
  "main_loop 0 inp s = Returned () inp s"
| "main_loop (Suc n) inp s =
     (case dispatch inp s of
        Starved t \<Rightarrow> Starved t
      | Returned _ inp1 s1 \<Rightarrow> main_loop n inp1 s1)"

subsection \<open>The timer interrupt\<close>

text \<open>
  The handler writes the ports P1 (anode layers), P2 (latch select) and P0 (latch
  data) and reloads the timer; the model returns these writes in order, with the new
  state. \<^verbatim>\<open>1<<i\<close> and \<^verbatim>\<open>~(1<<layer)\<close> are computed on \<^verbatim>\<open>int\<close> and stored in
  an 8-bit port, which keeps the low 8 bits: the same shift and complement on a byte.
\<close>

datatype port_write = P0 byte | P1 byte | P2 byte | TH0 byte | TL0 byte

definition load_latches :: "port_write list \<times> cube \<Rightarrow> port_write list \<times> cube" where
  "load_latches =
     fold (\<lambda>i (out, t).
        (out @ [P2 (push_bit i 1), P0 (fetch t (unat (layer t)) i)], delay 3 (delay 3 t)))
       [0..<8]"

definition timer_isr :: "cube \<Rightarrow> port_write list \<times> cube" where
  "timer_isr s =
     (case load_latches ([P1 255], s) of
        (out, t) \<Rightarrow>
          (out @ [P1 (NOT (push_bit (unat (layer t)) 1)), TH0 0xc0, TL0 0],
           t\<lparr>layer := (if layer t + 1 > 7 then 0 else layer t + 1)\<rparr>))"

subsection \<open>A cube to run the program on\<close>

text \<open>The state at reset with every LED of the frame buffer off.\<close>

definition dark_cube :: cube where
  "dark_cube = init_cube (replicate 8 (replicate 8 0xff))"

subsection \<open>Observations of the pause button\<close>

text \<open>
  How often the pause flag changes over successive polls of button 1, on the samples
  \<open>vs\<close> from state \<open>s\<close>.
\<close>

fun toggles :: "byte list \<Rightarrow> cube \<Rightarrow> nat" where
  "toggles [] s = 0"
| "toggles (v # vs) s =
     (if pause_flag (button1 v s) = pause_flag s then 0 else 1) + toggles vs (button1 v s)"

text \<open>
  The number of new presses of button 1 in the samples \<open>vs\<close>: the samples where the
  button is down and was up at the sample before; \<open>held\<close> says whether it was down
  before the first.
\<close>

fun presses :: "bool \<Rightarrow> byte list \<Rightarrow> nat" where
  "presses held [] = 0"
| "presses held (v # vs) = (if \<not> P4_1 v \<and> \<not> held then 1 else 0) + presses (\<not> P4_1 v) vs"

subsection \<open>Observations of the mode\<close>

text \<open>
  A change of \<open>mode\<close> that a pressed button accounts for: the last sample read has
  button 2 down and \<open>mode\<close> is 0, or has button 3 down and \<open>mode\<close> is the old value
  plus one modulo 5.
\<close>

definition by_button :: "byte list \<Rightarrow> byte list \<Rightarrow> cube \<Rightarrow> cube \<Rightarrow> bool" where
  "by_button inp inp' s t =
     (\<exists>pre v. inp = pre @ v # inp' \<and>
        ((\<not> P4_2 v \<and> mode t = 0) \<or> (\<not> P4_3 v \<and> mode t = (mode s + 1) smod 5)))"

section \<open>The frame buffer\<close>

lemma bit_128: "bit (128::byte) m \<longleftrightarrow> m = 7"
proof -
  have "bit (2 ^ 7 :: byte) m \<longleftrightarrow> m = 7"
    unfolding bit_exp_iff by (auto simp: possible_bit_word)
  then show ?thesis by simp
qed

lemma bit_xbit: "unat x < 8 \<Longrightarrow> bit (xbit x) n \<longleftrightarrow> n = 7 - unat x"
  unfolding xbit_def bit_drop_bit_eq comp_def bit_128 by arith

lemma wf_row: "wf_display d \<Longrightarrow> z < 8 \<Longrightarrow> length (d ! z) = 8"
  by (simp add: wf_display_def list_all_length)

lemma fetch_store:
  "wf_display (display s) \<Longrightarrow> z < 8 \<Longrightarrow> y < 8 \<Longrightarrow>
   fetch (store z y b s) z' y' = (if z' = z \<and> y' = y then b else fetch s z' y')"
  using wf_row[of "display s" z]
  by (auto simp: fetch_def store_def nth_list_update wf_display_def)

lemma wf_store: "wf_display (display s) \<Longrightarrow> wf_display (display (store z y b s))"
  unfolding wf_display_def store_def list_all_length
proof (intro conjI allI impI)
  fix n
  assume a: "length (display s) = 8 \<and> (\<forall>n<length (display s). length (display s ! n) = 8)"
    and n: "n < length (display (s\<lparr>display := (display s)[z := (display s ! z)[y := b]]\<rparr>))"
  show "length (display (s\<lparr>display := (display s)[z := (display s ! z)[y := b]]\<rparr>) ! n) = 8"
    using a n by (cases "n = z") auto
qed simp

lemma wf_dark: "wf_display (display (init_cube (replicate 8 (replicate 8 b))))"
  by (simp add: init_cube_def wf_display_def list_all_length)

lemma fetch_fold_store:
  "wf_display (display s) \<Longrightarrow> y < 8 \<Longrightarrow> set zs \<subseteq> {..<8} \<Longrightarrow>
   fetch (fold (\<lambda>z. store z y (f z)) zs s) z' y' =
     (if z' \<in> set zs \<and> y' = y then f z' else fetch s z' y')"
proof (induction zs arbitrary: s)
  case Nil
  then show ?case by simp
next
  case (Cons z zs)
  have "wf_display (display (store z y (f z) s))"
    using Cons.prems(1) by (rule wf_store)
  with Cons show ?case by (auto simp: fetch_store)
qed

lemma fetch_character_on_y:
  assumes "wf_display (display s)" "unat y < 8" "z < 8"
  shows "fetch (character_on_y y c s) z (unat y) = NOT (c ! z)"
  using assms unfolding character_on_y_def
  by (subst fetch_fold_store) auto

text \<open>
  C8. For x, y, z in 0..7, \<open>set_point x y z v\<close> leaves the LED at (x, y, z)
  on when \<open>v\<close> is non-zero and off when \<open>v\<close> is zero, and every other LED of the
  cube as it was.
\<close>

theorem set_point_isolated:
  "wf_display (display s) \<Longrightarrow> unat x < 8 \<Longrightarrow> unat y < 8 \<Longrightarrow> unat z < 8 \<Longrightarrow>
   (led_on (set_point x y z v s) (unat x) (unat y) (unat z) \<longleftrightarrow> v \<noteq> 0) \<and>
   (\<forall>x'<8. \<forall>y'<8. \<forall>z'<8. (x', y', z') \<noteq> (unat x, unat y, unat z) \<longrightarrow>
      led_on (set_point x y z v s) x' y' z' = led_on s x' y' z')"
  by (auto simp: set_point_def led_on_def fetch_store bit_and_iff bit_or_iff bit_not_iff bit_xbit)

theorem set_point_isolated_witness:
  "led_on (set_point 3 2 1 1 (init_cube (replicate 8 (replicate 8 0xff)))) 3 2 1 \<and>
   \<not> led_on (set_point 3 2 1 0 (init_cube (replicate 8 (replicate 8 0)))) 3 2 1 \<and>
   led_on (set_point 3 2 1 1 (init_cube (replicate 8 (replicate 8 0xff)))) 4 2 1
     = led_on (init_cube (replicate 8 (replicate 8 0xff))) 4 2 1"
  using set_point_isolated [of "init_cube (replicate 8 (replicate 8 0xff))" 3 2 1 1]
    set_point_isolated [of "init_cube (replicate 8 (replicate 8 0))" 3 2 1 0] wf_dark
  by simp

text \<open>
  C9. \<open>character_on_y\<close> with y = 2 and the bitmap 0xFF, 0, 0, 0, 0, 0, 0, 0 leaves
  the eight LEDs of (y = 2, z = 0) on and the LEDs of (y = 2, z) off for z in 1..7.
\<close>

theorem character_on_y_row:
  "wf_display (display s) \<Longrightarrow>
   (\<forall>x<8. led_on (character_on_y 2 [0xFF, 0, 0, 0, 0, 0, 0, 0] s) x 2 0) \<and>
   (\<forall>z\<in>{1..7}. \<forall>x<8. \<not> led_on (character_on_y 2 [0xFF, 0, 0, 0, 0, 0, 0, 0] s) x 2 z)"
proof -
  assume w: "wf_display (display s)"
  have n1: "(- 256 :: byte) = 0" by simp
  have f: "z < 8 \<Longrightarrow> fetch (character_on_y 2 [0xFF, 0, 0, 0, 0, 0, 0, 0] s) z 2
       = NOT ([0xFF, 0, 0, 0, 0, 0, 0, 0] ! z)" for z
    using fetch_character_on_y [OF w, of 2 z] by simp
  show ?thesis
    by (auto simp: led_on_def f nth_Cons' n1)
qed

theorem character_on_y_row_witness:
  "led_on (character_on_y 2 [0xFF, 0, 0, 0, 0, 0, 0, 0]
      (init_cube (replicate 8 (replicate 8 0xff)))) 5 2 0 \<and>
   \<not> led_on (character_on_y 2 [0xFF, 0, 0, 0, 0, 0, 0, 0]
      (init_cube (replicate 8 (replicate 8 0)))) 5 2 3"
  using character_on_y_row [of "init_cube (replicate 8 (replicate 8 0xff))"]
    character_on_y_row [of "init_cube (replicate 8 (replicate 8 0))"] wf_dark
  by simp

section \<open>The wait primitive\<close>

lemma funpow_delay5us: "(delay5us ^^ n) s = s\<lparr>elapsed := elapsed s + n\<rparr>"
  by (induction n) (simp_all add: delay5us_def)

lemma delay_eq: "delay i s = s\<lparr>elapsed := elapsed s + unat i\<rparr>"
  by (simp add: delay_def funpow_delay5us)

lemma button1_latch: "p41key (button1 v s) = (\<not> P4_1 v)"
  by (simp add: button1_def delay_eq)

lemma button1_flag:
  "pause_flag (button1 v s) = (if \<not> P4_1 v \<and> \<not> p41key s then \<not> pause_flag s else pause_flag s)"
  by (simp add: button1_def delay_eq)

lemma button1_frame:
  "mode (button1 v s) = mode s" "display (button1 v s) = display s"
  "p42key (button1 v s) = p42key s" "p43key (button1 v s) = p43key s"
  "layer (button1 v s) = layer s"
  by (simp_all add: button1_def delay_eq)

lemma toggles_presses: "toggles vs s = presses (p41key s) vs"
  by (induction vs arbitrary: s) (simp_all add: button1_latch button1_flag)

lemma presses_held: "list_all (\<lambda>v. \<not> P4_1 v) vs \<Longrightarrow> presses True vs = 0"
  by (induction vs) simp_all

lemma presses_held_new:
  "vs \<noteq> [] \<Longrightarrow> list_all (\<lambda>v. \<not> P4_1 v) vs \<Longrightarrow> presses False vs = 1"
  by (cases vs) (simp_all add: presses_held)

lemma pause_gate_held:
  "pause_flag s \<Longrightarrow> p41key s \<Longrightarrow> list_all (\<lambda>v. \<not> P4_1 v) vs \<Longrightarrow> pause_gate vs s = Starved s"
  by (induction vs) (simp_all add: button1_def Let_def)


lemma pause_gate_Starved:
  "pause_gate vs s = Starved t \<Longrightarrow> pause_flag t \<or> (vs = [] \<and> t = s)"
proof (induction vs s rule: pause_gate.induct)
  case (1 s)
  then show ?case by simp
next
  case (2 v vs s)
  then show ?case by (cases vs) (auto simp: Let_def split: if_splits)
qed

lemma pause_gate_frame:
  "pause_gate vs s = Starved t \<or> pause_gate vs s = Returned u rest t \<Longrightarrow>
   mode t = mode s \<and> display t = display s \<and> p42key t = p42key s \<and> p43key t = p43key s \<and>
   layer t = layer s"
proof (induction vs s rule: pause_gate.induct)
  case (1 s)
  then show ?case by simp
next
  case (2 v vs s)
  show ?case
  proof (cases "pause_flag (button1 v s)")
    case True
    with 2 show ?thesis by (simp add: Let_def button1_frame)
  next
    case False
    with "2.prems" show ?thesis by (auto simp: Let_def button1_frame)
  qed
qed

lemma pause_gate_Returned:
  "pause_gate vs s = Returned u rest t \<Longrightarrow> \<not> pause_flag t \<and> length rest < length vs"
proof (induction vs s rule: pause_gate.induct)
  case (1 s)
  then show ?case by simp
next
  case (2 v vs s)
  show ?case
  proof (cases "pause_flag (button1 v s)")
    case True
    with 2 have "\<not> pause_flag t \<and> length rest < length vs" by (simp add: Let_def)
    then show ?thesis by simp
  next
    case False
    with "2.prems" show ?thesis by (auto simp: Let_def)
  qed
qed

lemma pause_gate_paused_Starved:
  "pause_flag s \<Longrightarrow> pause_gate vs s = Starved t \<Longrightarrow> presses (p41key s) vs = 0 \<and> pause_flag t"
proof (induction vs s rule: pause_gate.induct)
  case (1 s)
  then show ?case by simp
next
  case (2 v vs s)
  show ?case
  proof (cases "pause_flag (button1 v s)")
    case True
    with 2 have "presses (p41key (button1 v s)) vs = 0 \<and> pause_flag t"
      by (simp add: Let_def)
    moreover from True "2.prems"(1) have "\<not> (\<not> P4_1 v \<and> \<not> p41key s)"
      by (auto simp: button1_flag split: if_splits)
    ultimately show ?thesis by (simp add: button1_latch)
  next
    case False
    with "2.prems" show ?thesis by (simp add: Let_def)
  qed
qed

lemma pause_gate_paused_Returned:
  "pause_flag s \<Longrightarrow> pause_gate vs s = Returned u rest t \<Longrightarrow>
   \<exists>pre v. vs = pre @ v # rest \<and> presses (p41key s) pre = 0 \<and> \<not> P4_1 v \<and>
     presses (p41key s) (pre @ [v]) = 1"
proof (induction vs arbitrary: s)
  case Nil
  then show ?case by simp
next
  case (Cons w ws)
  show ?case
  proof (cases "pause_flag (button1 w s)")
    case False
    with Cons.prems have "rest = ws" "\<not> P4_1 w" "\<not> p41key s"
      by (auto simp: Let_def button1_flag split: if_splits)
    then have "w # ws = [] @ w # rest \<and> presses (p41key s) [] = 0 \<and> \<not> P4_1 w \<and>
        presses (p41key s) ([] @ [w]) = 1" by simp
    then show ?thesis by blast
  next
    case True
    with Cons.prems have g: "pause_gate ws (button1 w s) = Returned u rest t"
      by (simp add: Let_def)
    from True Cons.prems(1) have e: "\<not> (\<not> P4_1 w \<and> \<not> p41key s)"
      by (auto simp: button1_flag split: if_splits)
    from Cons.IH [OF True g] obtain pre v where
      p: "ws = pre @ v # rest" "presses (\<not> P4_1 w) pre = 0" "\<not> P4_1 v"
        "presses (\<not> P4_1 w) (pre @ [v]) = 1"
      by (auto simp: button1_latch)
    have "w # ws = (w # pre) @ v # rest \<and> presses (p41key s) (w # pre) = 0 \<and> \<not> P4_1 v \<and>
        presses (p41key s) ((w # pre) @ [v]) = 1"
      using p e by auto
    then show ?thesis by blast
  qed
qed


lemma button2_frame:
  "button2 v s = (f, t) \<Longrightarrow>
   display t = display s \<and> layer t = layer s \<and> pause_flag t = pause_flag s \<and>
   p41key t = p41key s \<and> p43key t = p43key s"
  by (auto simp: button2_def delay_eq split: if_splits)

lemma button3_frame:
  "button3 v s = (f, t) \<Longrightarrow>
   display t = display s \<and> layer t = layer s \<and> pause_flag t = pause_flag s \<and>
   p41key t = p41key s \<and> p42key t = p42key s"
  by (auto simp: button3_def delay_eq split: if_splits)

lemma button2_fired:
  "button2 v s = (f, t) \<Longrightarrow> f = (\<not> P4_2 v \<and> \<not> p42key s) \<and>
     (if f then mode t = 0 \<and> p42key t else mode t = mode s)"
  by (auto simp: button2_def delay_eq split: if_splits)

lemma button3_fired:
  "button3 v s = (f, t) \<Longrightarrow> f = (\<not> P4_3 v \<and> \<not> p43key s) \<and>
     (if f then mode t = (mode s + 1) smod 5 \<and> p43key t else mode t = mode s)"
  by (auto simp: button3_def delay_eq split: if_splits)

lemma delay5us_frame:
  "display (delay5us s) = display s" "mode (delay5us s) = mode s" "layer (delay5us s) = layer s"
  "pause_flag (delay5us s) = pause_flag s" "p41key (delay5us s) = p41key s"
  "p42key (delay5us s) = p42key s" "p43key (delay5us s) = p43key s"
  by (simp_all add: delay5us_def)

lemma poll_cases:
  assumes "poll inp s = R"
  obtains
    (gate) t where "pause_gate inp (delay5us s) = Starved t" "R = Starved t"
  | (no2) s1 where "pause_gate inp (delay5us s) = Returned () [] s1" "R = Starved s1"
  | (fire2) v2 inp2 s1 s2 where "pause_gate inp (delay5us s) = Returned () (v2 # inp2) s1"
      "button2 v2 s1 = (True, s2)" "R = Returned True inp2 s2"
  | (no3) v2 s1 s2 where "pause_gate inp (delay5us s) = Returned () [v2] s1"
      "button2 v2 s1 = (False, s2)" "R = Starved s2"
  | (done3) v2 v3 inp3 s1 s2 s3 f where "pause_gate inp (delay5us s) = Returned () (v2 # v3 # inp3) s1"
      "button2 v2 s1 = (False, s2)" "button3 v3 s2 = (f, s3)" "R = Returned f inp3 s3"
  using assms unfolding poll_def
  by (auto split: result.splits list.splits prod.splits bool.splits)


lemma poll_frame:
  assumes "poll inp s = Starved t \<or> poll inp s = Returned f inp' t"
  shows "display t = display s \<and> layer t = layer s"
proof -
  obtain R where R: "poll inp s = R" "R = Starved t \<or> R = Returned f inp' t"
    using assms by auto
  from R(1) show ?thesis
  proof (cases rule: poll_cases)
    case (gate t')
    with R(2) pause_gate_frame [of inp "delay5us s" t] show ?thesis
      by (simp add: delay5us_frame)
  next
    case (no2 s1)
    with R(2) pause_gate_frame [of inp "delay5us s" t "()" "[]"] show ?thesis
      by (simp add: delay5us_frame)
  next
    case (fire2 v2 inp2 s1 s2)
    with R(2) pause_gate_frame [of inp "delay5us s" s1 "()" "v2 # inp2"]
      button2_frame [of v2 s1 True s2] show ?thesis
      by (simp add: delay5us_frame)
  next
    case (no3 v2 s1 s2)
    with R(2) pause_gate_frame [of inp "delay5us s" s1 "()" "[v2]"]
      button2_frame [of v2 s1 False s2] show ?thesis
      by (simp add: delay5us_frame)
  next
    case (done3 v2 v3 inp3 s1 s2 s3 f')
    with R(2) pause_gate_frame [of inp "delay5us s" s1 "()" "v2 # v3 # inp3"]
      button2_frame [of v2 s1 False s2] button3_frame [of v3 s2 f' s3] show ?thesis
      by (simp add: delay5us_frame)
  qed
qed

lemma poll_Starved:
  assumes "poll inp s = Starved t"
  shows "mode t = mode s"
  using assms
proof (cases rule: poll_cases)
  case (gate t')
  with pause_gate_frame [of inp "delay5us s" t] show ?thesis
    by (simp add: delay5us_frame)
next
  case (no2 s1)
  with pause_gate_frame [of inp "delay5us s" t "()" "[]"] show ?thesis
    by (simp add: delay5us_frame)
next
  case (no3 v2 s1 s2)
  with pause_gate_frame [of inp "delay5us s" s1 "()" "[v2]"]
    button2_fired [of v2 s1 False s2] show ?thesis
    by (simp add: delay5us_frame)
qed simp_all

lemma poll_Returned:
  assumes "poll inp s = Returned f inp' t"
  shows "\<not> pause_flag t \<and> length inp' < length inp \<and>
    (if f then (mode t = 0 \<and> p42key t) \<or> (mode t = (mode s + 1) smod 5 \<and> p43key t)
     else mode t = mode s)"
  using assms
proof (cases rule: poll_cases)
  case (fire2 v2 inp2 s1 s2)
  with pause_gate_frame [of inp "delay5us s" s1 "()" "v2 # inp2"]
    pause_gate_Returned [of inp "delay5us s" "()" "v2 # inp2" s1]
    button2_frame [of v2 s1 True s2] button2_fired [of v2 s1 True s2]
  show ?thesis by (simp add: delay5us_frame)
next
  case (done3 v2 v3 inp3 s1 s2 s3 f')
  with pause_gate_frame [of inp "delay5us s" s1 "()" "v2 # v3 # inp3"]
    pause_gate_Returned [of inp "delay5us s" "()" "v2 # v3 # inp3" s1]
    button2_frame [of v2 s1 False s2] button2_fired [of v2 s1 False s2]
    button3_frame [of v3 s2 f' s3] button3_fired [of v3 s2 f' s3]
  show ?thesis by (auto simp: delay5us_frame split: if_splits)
qed simp_all

lemma pause_loop_frame:
  "pause_loop n inp s = Starved t \<or> pause_loop n inp s = Returned r inp' t \<Longrightarrow>
   display t = display s \<and> layer t = layer s"
proof (induction n arbitrary: inp s)
  case 0
  then show ?case by simp
next
  case (Suc n)
  show ?case
  proof (cases "poll inp s")
    case (Starved t')
    with Suc.prems poll_frame [of inp s t] show ?thesis by simp
  next
    case (Returned f inp1 s1)
    note p = poll_frame [of inp s s1 f inp1]
    show ?thesis
    proof (cases f)
      case True
      with Returned Suc.prems p show ?thesis by simp
    next
      case False
      with Returned Suc.prems have "pause_loop n inp1 s1 = Starved t \<or>
          pause_loop n inp1 s1 = Returned r inp' t" by simp
      from Suc.IH [OF this] p Returned show ?thesis by simp
    qed
  qed
qed

lemma pause_loop_Starved:
  "pause_loop n inp s = Starved t \<Longrightarrow> mode t = mode s"
proof (induction n arbitrary: inp s)
  case 0
  then show ?case by simp
next
  case (Suc n)
  show ?case
  proof (cases "poll inp s")
    case (Starved t')
    with Suc.prems poll_Starved [of inp s t] show ?thesis by simp
  next
    case (Returned f inp1 s1)
    with Suc.prems have f: "\<not> f" and l: "pause_loop n inp1 s1 = Starved t"
      by (auto split: if_splits)
    from poll_Returned [OF Returned] f Suc.IH [OF l] show ?thesis by simp
  qed
qed

lemma pause_loop_Returned:
  "pause_loop n inp s = Returned r inp' t \<Longrightarrow>
   (r = 0 \<or> r = 1) \<and> (r = 0 \<longrightarrow> mode t = mode s) \<and>
   (r = 1 \<longrightarrow> (mode t = 0 \<and> p42key t) \<or> (mode t = (mode s + 1) smod 5 \<and> p43key t)) \<and>
   length inp' \<le> length inp \<and> (0 < n \<longrightarrow> length inp' < length inp \<and> \<not> pause_flag t)"
proof (induction n arbitrary: inp s)
  case 0
  then show ?case by simp
next
  case (Suc n)
  from Suc.prems obtain f inp1 s1 where p: "poll inp s = Returned f inp1 s1"
    by (cases "poll inp s") auto
  note q = poll_Returned [OF p]
  show ?case
  proof (cases f)
    case True
    with p Suc.prems q show ?thesis by auto
  next
    case False
    with p Suc.prems have l: "pause_loop n inp1 s1 = Returned r inp' t" by simp
    from Suc.IH [OF l] q False show ?thesis
      by (cases n) (use l in auto)
  qed
qed

lemma button1_no_press:
  "\<not> (\<not> P4_1 v \<and> \<not> p41key s) \<Longrightarrow> button1 v s = s\<lparr>p41key := \<not> P4_1 v\<rparr>"
  by (auto simp: button1_def)

lemma button1_press:
  "\<not> P4_1 v \<Longrightarrow> \<not> p41key s \<Longrightarrow>
   button1 v s = delay 100 (s\<lparr>p41key := True, pause_flag := \<not> pause_flag s\<rparr>)"
  by (simp add: button1_def)

lemma pause_gate_blocked:
  "pause_flag s \<Longrightarrow> presses (p41key s) vs = 0 \<Longrightarrow>
   \<exists>k. pause_gate vs s = Starved (s\<lparr>p41key := k\<rparr>)"
proof (induction vs arbitrary: s)
  case Nil
  have "s = s\<lparr>p41key := p41key s\<rparr>" by simp
  then show ?case by (metis pause_gate.simps(1))
next
  case (Cons v vs)
  from Cons.prems have n: "\<not> (\<not> P4_1 v \<and> \<not> p41key s)" and
    r: "presses (\<not> P4_1 v) vs = 0"
    by (auto split: if_splits)
  let ?s1 = "s\<lparr>p41key := \<not> P4_1 v\<rparr>"
  have b: "button1 v s = ?s1" using n by (rule button1_no_press)
  have "pause_flag ?s1" "presses (p41key ?s1) vs = 0"
    using Cons.prems(1) r by simp_all
  from Cons.IH [OF this] obtain k where "pause_gate vs ?s1 = Starved (?s1\<lparr>p41key := k\<rparr>)" ..
  with b Cons.prems(1) have "pause_gate (v # vs) s = Starved (s\<lparr>p41key := k\<rparr>)"
    by (simp add: Let_def)
  then show ?case ..
qed

lemma pause_gate_resume:
  "pause_flag s \<Longrightarrow> presses (p41key s) pre = 0 \<Longrightarrow> \<not> P4_1 w \<Longrightarrow>
   presses (p41key s) (pre @ [w]) = 1 \<Longrightarrow>
   pause_gate (pre @ w # rest) s =
     Returned () rest (delay 100 (s\<lparr>p41key := True, pause_flag := False\<rparr>))"
proof (induction pre arbitrary: s)
  case Nil
  then have "\<not> p41key s" by (auto split: if_splits)
  with Nil show ?case by (simp add: button1_press Let_def delay_eq)
next
  case (Cons v pre)
  from Cons.prems(2) have n: "\<not> (\<not> P4_1 v \<and> \<not> p41key s)" and
    r: "presses (\<not> P4_1 v) pre = 0"
    by (auto split: if_splits)
  let ?s1 = "s\<lparr>p41key := \<not> P4_1 v\<rparr>"
  have b: "button1 v s = ?s1" using n by (rule button1_no_press)
  have "pause_flag ?s1" "presses (p41key ?s1) pre = 0" "presses (p41key ?s1) (pre @ [w]) = 1"
    using Cons.prems n r by (simp_all split: if_splits)
  from Cons.IH [OF this(1,2) Cons.prems(3) this(3)] b Cons.prems(1)
  show ?case by (simp add: Let_def)
qed

lemma pause_Suc: "i \<noteq> 0 \<Longrightarrow> \<exists>n. unat i = Suc n"
  by (metis not0_implies_Suc unat_eq_0)

lemma pause_held_blocks:
  assumes "i \<noteq> 0" "\<not> pause_flag s" "\<not> p41key s" "\<not> P4_1 v" "presses True vs = 0"
  shows "\<exists>k. pause i (v # vs) s =
     Starved (delay 100 (delay5us s\<lparr>p41key := True, pause_flag := True\<rparr>)\<lparr>p41key := k\<rparr>)"
proof -
  let ?s1 = "delay 100 (delay5us s\<lparr>p41key := True, pause_flag := True\<rparr>)"
  obtain n where n: "unat i = Suc n" using pause_Suc [OF assms(1)] ..
  have b: "button1 v (delay5us s) = ?s1"
    using assms(2-4) by (simp add: button1_press delay5us_frame)
  have "pause_flag ?s1" "presses (p41key ?s1) vs = 0"
    using assms(5) by (simp_all add: delay_eq)
  from pause_gate_blocked [OF this] obtain k where
    "pause_gate vs ?s1 = Starved (?s1\<lparr>p41key := k\<rparr>)" ..
  with b have "pause_gate (v # vs) (delay5us s) = Starved (?s1\<lparr>p41key := k\<rparr>)"
    by (simp add: Let_def delay_eq)
  then have "pause i (v # vs) s = Starved (?s1\<lparr>p41key := k\<rparr>)"
    by (simp add: pause_def n poll_def)
  then show ?thesis ..
qed

lemma pause_resumes:
  assumes "i \<noteq> 0" "\<not> pause_flag s" "\<not> p41key s" "\<not> P4_1 v" "presses True vs = 0"
    "\<not> P4_1 w" "presses True (vs @ [w]) = 1"
  shows "pause_gate (v # vs @ w # rest) (delay5us s) =
     Returned () rest (delay 100 (delay 100 (delay5us s\<lparr>p41key := True, pause_flag := False\<rparr>)))"
proof -
  let ?s1 = "delay 100 (delay5us s\<lparr>p41key := True, pause_flag := True\<rparr>)"
  have b: "button1 v (delay5us s) = ?s1"
    using assms(2-4) by (simp add: button1_press delay5us_frame)
  have "pause_flag ?s1" "presses (p41key ?s1) vs = 0" "presses (p41key ?s1) (vs @ [w]) = 1"
    using assms(5,7) by (simp_all add: delay_eq)
  from pause_gate_resume [OF this(1,2) assms(6) this(3), of rest] b
  show ?thesis by (simp add: Let_def delay_eq)
qed

lemma P4_samples:
  "P4_1 0xFF" "P4_2 0xFF" "P4_3 0xFF"
  "\<not> P4_1 0xFD" "P4_2 0xFD" "P4_3 0xFD"
  "P4_1 0xFB" "\<not> P4_2 0xFB" "P4_3 0xFB"
  "P4_1 0xF7" "P4_2 0xF7" "\<not> P4_3 0xF7"
  unfolding P4_1_def P4_2_def P4_3_def by simp_all

lemma init_cube_simps:
  "display (init_cube d) = d" "mode (init_cube d) = 0" "\<not> pause_flag (init_cube d)"
  "\<not> p41key (init_cube d)" "\<not> p42key (init_cube d)" "\<not> p43key (init_cube d)"
  "layer (init_cube d) = 0" "elapsed (init_cube d) = 0"
  by (simp_all add: init_cube_def)

lemma dark_cube_simps:
  "display dark_cube = replicate 8 (replicate 8 0xff)" "mode dark_cube = 0"
  "\<not> pause_flag dark_cube" "\<not> p41key dark_cube" "\<not> p42key dark_cube"
  "\<not> p43key dark_cube" "layer dark_cube = 0" "elapsed dark_cube = 0"
  by (simp_all add: dark_cube_def init_cube_def)

text \<open>
  C5. A new press of button 1 in a call of \<open>pause\<close> sets the pause flag, and as long
  as the samples hold no further new press of button 1, whatever their bits for the
  buttons 2 and 3, the call stays in its loop: the samples are used up with the flag
  still set and with \<open>mode\<close>, the frame buffer and the latches of buttons 2 and 3
  as they were. Button 1 is still polled: at its next new press the flag is cleared,
  again with \<open>mode\<close>, the frame buffer and these latches unchanged, and only then is
  button 2 polled.
\<close>

theorem paused_only_button1:
  assumes "i \<noteq> 0" "\<not> pause_flag s" "\<not> p41key s" "\<not> P4_1 v" "presses True vs = 0"
  shows "(\<exists>t. pause i (v # vs) s = Starved t \<and> pause_flag t \<and> mode t = mode s \<and>
            display t = display s \<and> p42key t = p42key s \<and> p43key t = p43key s) \<and>
         (\<not> P4_1 w \<and> presses True (vs @ [w]) = 1 \<longrightarrow>
            (\<exists>t. pause i (v # vs @ [w]) s = Starved t \<and> \<not> pause_flag t \<and> mode t = mode s \<and>
               display t = display s \<and> p42key t = p42key s \<and> p43key t = p43key s) \<and>
            (\<not> P4_2 u \<and> \<not> p42key s \<longrightarrow>
               (\<exists>t. pause i (v # vs @ w # u # rest) s = Returned 1 rest t \<and> mode t = 0)))"
proof (intro conjI impI)
  from pause_held_blocks [OF assms] obtain k where
    "pause i (v # vs) s =
      Starved (delay 100 (delay5us s\<lparr>p41key := True, pause_flag := True\<rparr>)\<lparr>p41key := k\<rparr>)" ..
  then show "\<exists>t. pause i (v # vs) s = Starved t \<and> pause_flag t \<and> mode t = mode s \<and>
            display t = display s \<and> p42key t = p42key s \<and> p43key t = p43key s"
    by (simp add: delay_eq delay5us_def)
next
  obtain n where n: "unat i = Suc n" using pause_Suc [OF assms(1)] ..
  assume w: "\<not> P4_1 w \<and> presses True (vs @ [w]) = 1"
  then have g: "pause_gate (v # vs @ w # rest') (delay5us s) =
     Returned () rest' (delay 100 (delay 100 (delay5us s\<lparr>p41key := True, pause_flag := False\<rparr>)))"
    for rest'
    using pause_resumes [OF assms] by simp
  from g [of "[]"] show "\<exists>t. pause i (v # vs @ [w]) s = Starved t \<and> \<not> pause_flag t \<and>
      mode t = mode s \<and> display t = display s \<and> p42key t = p42key s \<and> p43key t = p43key s"
    by (simp add: pause_def n poll_def delay_eq delay5us_def)
  assume "\<not> P4_2 u \<and> \<not> p42key s"
  with g [of "u # rest"] show "\<exists>t. pause i (v # vs @ w # u # rest) s = Returned 1 rest t \<and> mode t = 0"
    by (simp add: pause_def n poll_def delay_eq delay5us_def button2_def)
qed



theorem paused_only_button1_witness:
  "(\<exists>t. pause 5 [0xFD, 0xFD, 0xFB, 0xF7] (dark_cube) = Starved t \<and> pause_flag t \<and>
      mode t = 0 \<and> display t = display dark_cube \<and> \<not> p42key t \<and> \<not> p43key t) \<and>
   (\<exists>t. pause 5 [0xFD, 0xFD, 0xFB, 0xF7, 0xFD] (dark_cube) = Starved t \<and> \<not> pause_flag t \<and>
      mode t = 0 \<and> display t = display dark_cube \<and> \<not> p42key t \<and> \<not> p43key t) \<and>
   (\<exists>t. pause 5 [0xFD, 0xFD, 0xFB, 0xF7, 0xFD, 0xFB, 0xFF] (dark_cube) = Returned 1 [0xFF] t \<and>
      mode t = 0)"
  using paused_only_button1 [where i = 5 and s = "dark_cube" and v = "0xFD"
      and vs = "[0xFD, 0xFB, 0xF7]" and w = "0xFD" and u = "0xFB" and rest = "[0xFF]"]
  by (simp add: P4_samples dark_cube_simps)

lemma pause_gate_suffix: "pause_gate vs s = Returned u rest t \<Longrightarrow> \<exists>pre. vs = pre @ rest"
proof (induction vs s rule: pause_gate.induct)
  case (1 s)
  then show ?case by simp
next
  case (2 v vs s)
  show ?case
  proof (cases "pause_flag (button1 v s)")
    case True
    with 2 obtain pre where "vs = pre @ rest" by (auto simp: Let_def)
    then have "v # vs = (v # pre) @ rest" by simp
    then show ?thesis ..
  next
    case False
    with "2.prems" have "v # vs = [v] @ rest" by (simp add: Let_def)
    then show ?thesis ..
  qed
qed

lemma poll_fired:
  assumes "poll inp s = Returned True inp' t"
  shows "\<exists>pre v. inp = pre @ v # inp' \<and>
    ((\<not> P4_2 v \<and> \<not> p42key s \<and> mode t = 0 \<and> p42key t) \<or>
     (\<not> P4_3 v \<and> \<not> p43key s \<and> mode t = (mode s + 1) smod 5 \<and> p43key t))"
  using assms
proof (cases rule: poll_cases)
  case (fire2 v2 inp2 s1 s2)
  from pause_gate_suffix [OF fire2(1)] obtain pre where "inp = pre @ v2 # inp2" ..
  moreover have "\<not> P4_2 v2 \<and> \<not> p42key s \<and> mode s2 = 0 \<and> p42key s2"
    using pause_gate_frame [of inp "delay5us s" s1 "()" "v2 # inp2"] fire2(1)
      button2_fired [OF fire2(2)] by (simp add: delay5us_frame)
  ultimately show ?thesis using fire2(3) by blast
next
  case (done3 v2 v3 inp3 s1 s2 s3 f)
  from pause_gate_suffix [OF done3(1)] obtain pre where "inp = pre @ v2 # v3 # inp3" ..
  then have "inp = (pre @ [v2]) @ v3 # inp3" by simp
  moreover have "\<not> P4_3 v3 \<and> \<not> p43key s \<and> mode s3 = (mode s + 1) smod 5 \<and> p43key s3"
    using pause_gate_frame [of inp "delay5us s" s1 "()" "v2 # v3 # inp3"] done3
      button2_frame [OF done3(2)] button2_fired [OF done3(2)]
      button3_fired [OF done3(3)] by (simp add: delay5us_frame)
  ultimately show ?thesis using done3(4) by blast
qed simp_all

lemma poll_quiet:
  assumes "poll inp s = Returned False inp' t"
  shows "\<exists>pre v2 v3. inp = pre @ v2 # v3 # inp' \<and> \<not> (\<not> P4_2 v2 \<and> \<not> p42key s) \<and>
     \<not> (\<not> P4_3 v3 \<and> \<not> p43key s) \<and> mode t = mode s"
  using assms
proof (cases rule: poll_cases)
  case (done3 v2 v3 inp3 s1 s2 s3 f)
  from pause_gate_suffix [OF done3(1)] obtain pre where "inp = pre @ v2 # v3 # inp3" ..
  moreover have "\<not> (\<not> P4_2 v2 \<and> \<not> p42key s) \<and> \<not> (\<not> P4_3 v3 \<and> \<not> p43key s) \<and> mode s3 = mode s"
    using pause_gate_frame [of inp "delay5us s" s1 "()" "v2 # v3 # inp3"] done3
      button2_frame [OF done3(2)] button2_fired [OF done3(2)]
      button3_fired [OF done3(3)] by (simp add: delay5us_frame)
  ultimately show ?thesis using done3(4) by blast
qed simp_all

lemma pause_loop_fired:
  "pause_loop n inp s = Returned 1 inp' t \<Longrightarrow>
   \<exists>pre v. inp = pre @ v # inp' \<and>
     ((\<not> P4_2 v \<and> mode t = 0 \<and> p42key t) \<or>
      (\<not> P4_3 v \<and> mode t = (mode s + 1) smod 5 \<and> p43key t))"
proof (induction n arbitrary: inp s)
  case 0
  then show ?case by simp
next
  case (Suc n)
  from Suc.prems obtain f inp1 s1 where p: "poll inp s = Returned f inp1 s1"
    by (cases "poll inp s") auto
  show ?case
  proof (cases f)
    case True
    with p Suc.prems have "poll inp s = Returned True inp' t" by simp
    from poll_fired [OF this] show ?thesis by blast
  next
    case False
    with p Suc.prems have l: "pause_loop n inp1 s1 = Returned 1 inp' t" by simp
    from p False have "poll inp s = Returned False inp1 s1" by simp
    from poll_quiet [OF this] obtain pre1 v2 v3 where
      q: "inp = pre1 @ v2 # v3 # inp1" "mode s1 = mode s" by blast
    from Suc.IH [OF l] obtain pre v where
      r: "inp1 = pre @ v # inp'" "(\<not> P4_2 v \<and> mode t = 0 \<and> p42key t) \<or>
        (\<not> P4_3 v \<and> mode t = (mode s1 + 1) smod 5 \<and> p43key t)" by blast
    from q r have "inp = (pre1 @ v2 # v3 # pre) @ v # inp'" by simp
    with r(2) q(2) show ?thesis by metis
  qed
qed

lemma poll_idle:
  assumes "P4_1 v1" "P4_2 v2" "P4_3 v3" "\<not> pause_flag s"
  shows "poll (v1 # v2 # v3 # rest) s =
    Returned False rest (s\<lparr>elapsed := elapsed s + 1, p41key := False, p43key := False\<rparr>)"
  using assms
  by (simp add: poll_def button1_def button2_def button3_def delay5us_def Let_def)

lemma pause_loop_idle:
  "list_all (\<lambda>v. P4_1 v \<and> P4_2 v \<and> P4_3 v) inp \<Longrightarrow> 3 * n \<le> length inp \<Longrightarrow>
   \<not> pause_flag s \<Longrightarrow> 0 < n \<Longrightarrow>
   pause_loop n inp s =
     Returned 0 (drop (3 * n) inp) (s\<lparr>elapsed := elapsed s + n, p41key := False, p43key := False\<rparr>)"
proof (induction n arbitrary: inp s)
  case 0
  then show ?case by simp
next
  case (Suc n)
  from Suc.prems(2) obtain v1 v2 v3 rest where i: "inp = v1 # v2 # v3 # rest"
    by (cases inp; cases "tl inp"; cases "tl (tl inp)") auto
  let ?s1 = "s\<lparr>elapsed := elapsed s + 1, p41key := False, p43key := False\<rparr>"
  have p: "poll inp s = Returned False rest ?s1"
    unfolding i using Suc.prems(1,3) i by (intro poll_idle) simp_all
  show ?case
  proof (cases n)
    case 0
    with p i show ?thesis by simp
  next
    case (Suc m)
    have "pause_loop n rest ?s1 = Returned 0 (drop (3 * n) rest)
        (?s1\<lparr>elapsed := elapsed ?s1 + n, p41key := False, p43key := False\<rparr>)"
      using Suc.prems i Suc by (intro Suc.IH) simp_all
    moreover have "drop (3 + 3 * n) (v1 # v2 # v3 # rest) = drop (3 * n) rest"
      by (simp add: numeral_3_eq_3)
    ultimately show ?thesis using p i by simp
  qed
qed

lemma pause_loop_rec:
  "0 < n \<Longrightarrow> pause_loop n inp s =
     (case poll inp s of
        Starved t \<Rightarrow> Starved t
      | Returned fired inp1 s1 \<Rightarrow>
          if fired then Returned 1 inp1 s1 else pause_loop (n - 1) inp1 s1)"
  by (cases n) (simp_all split: result.splits)

lemmas run_simps = pause_def pause_loop_rec poll_def button1_def button2_def button3_def
  delay_eq delay5us_def P4_samples dark_cube_def init_cube_def Let_def

lemma button2_latch:
  "\<not> P4_2 v \<Longrightarrow> p42key s \<Longrightarrow> button2 v s = (False, s\<lparr>p42key := False\<rparr>)"
  "P4_2 v \<Longrightarrow> button2 v s = (False, s)"
  by (simp_all add: button2_def)

lemma button3_latch:
  "\<not> P4_3 v \<Longrightarrow> p43key s \<Longrightarrow> button3 v s = (False, s)"
  "P4_3 v \<Longrightarrow> button3 v s = (False, s\<lparr>p43key := False\<rparr>)"
  by (simp_all add: button3_def)

text \<open>
  C1. The claim is that a mode button held down over successive polls signals one
  event only, until it is released. For button 2 the program does otherwise. With
  button 2 held down in every sample, a first call of \<open>pause\<close> returns 1 at its first
  poll and sets the latch; in the next call the first poll finds the button down and
  the latch set, and clears the latch (\<open>button2_latch\<close>: the \<^verbatim>\<open>else\<close> belongs to the
  test of the latch, not to the test of the button), and the second poll returns 1
  again, the button never released. Button 3, written with braces, keeps its latch
  while the button is down (\<open>button3_latch\<close>).
\<close>

theorem button2_fires_again_while_held:
  "list_all (\<lambda>v. \<not> P4_2 v) [0xFB, 0xFB, 0xFB, 0xFB, 0xFB, 0xFB, 0xFB] \<and>
   pause 3 [0xFB, 0xFB, 0xFB, 0xFB, 0xFB, 0xFB, 0xFB] dark_cube =
     Returned 1 [0xFB, 0xFB, 0xFB, 0xFB, 0xFB] (dark_cube\<lparr>p42key := True, elapsed := 101\<rparr>) \<and>
   pause 3 [0xFB, 0xFB, 0xFB, 0xFB, 0xFB] (dark_cube\<lparr>p42key := True, elapsed := 101\<rparr>) =
     Returned 1 [] (dark_cube\<lparr>p42key := True, elapsed := 203\<rparr>)"
  by (simp add: run_simps)

lemma episode_run:
  "pause 2 [0xFD, 0xFD, 0xFF, 0xFD, 0xFF, 0xFF, 0xFF, 0xFF, 0xFF] dark_cube =
     Returned 0 [] (dark_cube\<lparr>elapsed := 202\<rparr>)"
  by (simp add: run_simps)

lemma press2_run:
  "pause 2 [0xFF, 0xFB, 0xFF] dark_cube =
     Returned 1 [0xFF] (dark_cube\<lparr>p42key := True, elapsed := 101\<rparr>)"
  by (simp add: run_simps)

lemma press2_poll:
  "poll [0xFF, 0xFB, 0xFF] dark_cube =
     Returned True [0xFF] (dark_cube\<lparr>p42key := True, elapsed := 101\<rparr>)"
  by (simp add: run_simps)

lemma idle_poll:
  "poll [0xFF, 0xFF, 0xFF] dark_cube = Returned False [] (dark_cube\<lparr>elapsed := 1\<rparr>)"
  by (simp add: run_simps)

lemma starved_run:
  "pause 2 [0xFF, 0xFF] dark_cube = Starved (dark_cube\<lparr>elapsed := 1\<rparr>)"
  by (simp add: run_simps)

text \<open>
  What the return value of \<open>pause\<close> tells its caller. A call that returns, returns 0
  or 1. When it returns 1, the last sample it read has button 2 down, \<open>mode\<close> is 0
  and the latch of button 2 is set, or has button 3 down, \<open>mode\<close> is its old value
  plus one modulo 5 and the latch of button 3 is set. When it returns 0, or the
  samples run out, \<open>mode\<close> is unchanged. One poll returns 1 when the test of
  button 2 or of button 3 succeeds on its sample (button down, latch clear), and goes
  on when both fail. On samples where the buttons 2 and 3 are never down the call
  never returns 1, whatever button 1 does; and with no button down and three samples
  for each round it returns 0.
\<close>

theorem pause_return_value:
  "(pause i inp s = Returned r inp' t \<longrightarrow>
      (r = 0 \<or> r = 1) \<and>
      (r = 1 \<longrightarrow> (\<exists>pre v. inp = pre @ v # inp' \<and>
          ((\<not> P4_2 v \<and> mode t = 0 \<and> p42key t) \<or>
           (\<not> P4_3 v \<and> mode t = (mode s + 1) smod 5 \<and> p43key t)))) \<and>
      (r = 0 \<longrightarrow> mode t = mode s)) \<and>
   (pause i inp s = Starved t \<longrightarrow> mode t = mode s) \<and>
   (poll inp s = Returned True inp' t \<longrightarrow>
      (\<exists>pre v. inp = pre @ v # inp' \<and>
          ((\<not> P4_2 v \<and> \<not> p42key s) \<or> (\<not> P4_3 v \<and> \<not> p43key s)))) \<and>
   (poll inp s = Returned False inp' t \<longrightarrow>
      (\<exists>pre v2 v3. inp = pre @ v2 # v3 # inp' \<and> \<not> (\<not> P4_2 v2 \<and> \<not> p42key s) \<and>
          \<not> (\<not> P4_3 v3 \<and> \<not> p43key s))) \<and>
   (list_all (\<lambda>v. P4_2 v \<and> P4_3 v) inp \<longrightarrow> pause i inp s \<noteq> Returned 1 inp' t) \<and>
   (list_all (\<lambda>v. P4_1 v \<and> P4_2 v \<and> P4_3 v) inp \<and> 3 * unat i \<le> length inp \<and>
      \<not> pause_flag s \<longrightarrow> (\<exists>t'. pause i inp s = Returned 0 (drop (3 * unat i) inp) t'))"
proof (intro conjI impI)
  assume a: "pause i inp s = Returned r inp' t"
  then have l: "pause_loop (unat i) inp s = Returned r inp' t" by (simp add: pause_def)
  from pause_loop_Returned [OF l] show "r = 0 \<or> r = 1" by simp
  from pause_loop_Returned [OF l] show "mode t = mode s" if "r = 0" using that by simp
  show "\<exists>pre v. inp = pre @ v # inp' \<and>
          ((\<not> P4_2 v \<and> mode t = 0 \<and> p42key t) \<or>
           (\<not> P4_3 v \<and> mode t = (mode s + 1) smod 5 \<and> p43key t))" if "r = 1"
    using pause_loop_fired [of "unat i" inp s inp' t] l that by simp
next
  assume "pause i inp s = Starved t"
  then show "mode t = mode s" by (simp add: pause_def pause_loop_Starved)
next
  assume "poll inp s = Returned True inp' t"
  from poll_fired [OF this] show "\<exists>pre v. inp = pre @ v # inp' \<and>
          ((\<not> P4_2 v \<and> \<not> p42key s) \<or> (\<not> P4_3 v \<and> \<not> p43key s))" by blast
next
  assume "poll inp s = Returned False inp' t"
  from poll_quiet [OF this] show "\<exists>pre v2 v3. inp = pre @ v2 # v3 # inp' \<and>
      \<not> (\<not> P4_2 v2 \<and> \<not> p42key s) \<and> \<not> (\<not> P4_3 v3 \<and> \<not> p43key s)" by blast
next
  assume q: "list_all (\<lambda>v. P4_2 v \<and> P4_3 v) inp"
  show "pause i inp s \<noteq> Returned 1 inp' t"
  proof
    assume "pause i inp s = Returned 1 inp' t"
    then have "pause_loop (unat i) inp s = Returned 1 inp' t" by (simp add: pause_def)
    from pause_loop_fired [OF this] obtain pre v where
      "inp = pre @ v # inp'" "\<not> P4_2 v \<or> \<not> P4_3 v" by blast
    with q show False by auto
  qed
next
  assume q: "list_all (\<lambda>v. P4_1 v \<and> P4_2 v \<and> P4_3 v) inp \<and> 3 * unat i \<le> length inp \<and>
      \<not> pause_flag s"
  show "\<exists>t'. pause i inp s = Returned 0 (drop (3 * unat i) inp) t'"
  proof (cases "unat i = 0")
    case True
    then show ?thesis by (simp add: pause_def)
  next
    case False
    with q pause_loop_idle [of inp "unat i" s] show ?thesis by (simp add: pause_def)
  qed
qed

theorem pause_return_value_witness:
  "(\<exists>pre v. [0xFF, 0xFB, 0xFF] = pre @ v # [0xFF] \<and>
      ((\<not> P4_2 v \<and> mode (dark_cube\<lparr>p42key := True, elapsed := 101\<rparr>) = 0 \<and>
        p42key (dark_cube\<lparr>p42key := True, elapsed := 101\<rparr>)) \<or>
       (\<not> P4_3 v \<and>
        mode (dark_cube\<lparr>p42key := True, elapsed := 101\<rparr>) = (mode dark_cube + 1) smod 5 \<and>
        p43key (dark_cube\<lparr>p42key := True, elapsed := 101\<rparr>)))) \<and>
   pause 2 [0xFD, 0xFD, 0xFF, 0xFD, 0xFF, 0xFF, 0xFF, 0xFF, 0xFF] dark_cube \<noteq>
     Returned 1 [] (dark_cube\<lparr>elapsed := 202\<rparr>) \<and>
   mode (dark_cube\<lparr>elapsed := 202\<rparr>) = mode dark_cube \<and>
   (\<exists>t'. pause 1 [0xFF, 0xFF, 0xFF] dark_cube =
      Returned 0 (drop (3 * unat (1 :: 16 word)) [0xFF, 0xFF, 0xFF]) t')"
proof (intro conjI)
  show "\<exists>pre v. [0xFF, 0xFB, 0xFF] = pre @ v # [0xFF] \<and>
      ((\<not> P4_2 v \<and> mode (dark_cube\<lparr>p42key := True, elapsed := 101\<rparr>) = 0 \<and>
        p42key (dark_cube\<lparr>p42key := True, elapsed := 101\<rparr>)) \<or>
       (\<not> P4_3 v \<and>
        mode (dark_cube\<lparr>p42key := True, elapsed := 101\<rparr>) = (mode dark_cube + 1) smod 5 \<and>
        p43key (dark_cube\<lparr>p42key := True, elapsed := 101\<rparr>)))"
    using pause_return_value [where i = 2 and s = dark_cube and r = 1 and inp' = "[0xFF]"
        and inp = "[0xFF, 0xFB, 0xFF]" and t = "dark_cube\<lparr>p42key := True, elapsed := 101\<rparr>"]
      press2_run by fast
  have e: "list_all (\<lambda>v. P4_2 v \<and> P4_3 v) [0xFD, 0xFD, 0xFF, 0xFD, 0xFF, 0xFF, 0xFF, 0xFF, 0xFF]"
    by (simp add: P4_samples)
  show "pause 2 [0xFD, 0xFD, 0xFF, 0xFD, 0xFF, 0xFF, 0xFF, 0xFF, 0xFF] dark_cube \<noteq>
     Returned 1 [] (dark_cube\<lparr>elapsed := 202\<rparr>)"
    using pause_return_value [where i = 2 and s = dark_cube and inp' = "[]"
        and inp = "[0xFD, 0xFD, 0xFF, 0xFD, 0xFF, 0xFF, 0xFF, 0xFF, 0xFF]"
        and t = "dark_cube\<lparr>elapsed := 202\<rparr>"] e by fast
  show "mode (dark_cube\<lparr>elapsed := 202\<rparr>) = mode dark_cube"
    using pause_return_value [where i = 2 and s = dark_cube and r = 0 and inp' = "[]"
        and inp = "[0xFD, 0xFD, 0xFF, 0xFD, 0xFF, 0xFF, 0xFF, 0xFF, 0xFF]"
        and t = "dark_cube\<lparr>elapsed := 202\<rparr>"] episode_run by fast
  have i: "list_all (\<lambda>v. P4_1 v \<and> P4_2 v \<and> P4_3 v) [0xFF, 0xFF, 0xFF] \<and>
      3 * unat (1 :: 16 word) \<le> length [0xFF :: byte, 0xFF, 0xFF] \<and> \<not> pause_flag dark_cube"
    by (simp add: P4_samples dark_cube_simps)
  show "\<exists>t'. pause 1 [0xFF, 0xFF, 0xFF] dark_cube =
      Returned 0 (drop (3 * unat (1 :: 16 word)) [0xFF, 0xFF, 0xFF]) t'"
    using pause_return_value [where i = 1 and s = dark_cube and inp = "[0xFF, 0xFF, 0xFF]"] i
    by fast
qed

text \<open>
  C10. The claim is that \<open>pause\<close> returns 1 exactly when a press edge of button 2
  or button 3 was detected during the call. For button 2 the program does otherwise,
  by the \<^verbatim>\<open>else\<close> that belongs to the test of the latch and not to the test
  of the button. After an event of button 2 its latch stays
  set when the button is released (here through a call in which button 3 sets
  \<open>mode\<close> to 1). In the next call the button-2 samples are up, then down: a press
  edge; the poll that sees it finds the latch set and clears it, and the call returns
  0 with \<open>mode\<close> still 1. And with button 2 down in every sample of a call, so
  with no edge in it, the call returns 1.
\<close>

theorem pause_return_not_edge:
  "pause 1 [0xFF, 0xFB] dark_cube =
     Returned 1 [] (dark_cube\<lparr>p42key := True, elapsed := 101\<rparr>) \<and>
   pause 1 [0xFF, 0xFF, 0xF7] (dark_cube\<lparr>p42key := True, elapsed := 101\<rparr>) =
     Returned 1 [] (dark_cube\<lparr>mode := 1, p42key := True, p43key := True, elapsed := 202\<rparr>) \<and>
   P4_2 0xFF \<and> \<not> P4_2 0xFB \<and>
   pause 2 [0xFF, 0xFF, 0xFF, 0xFF, 0xFB, 0xFF]
       (dark_cube\<lparr>mode := 1, p42key := True, p43key := True, elapsed := 202\<rparr>) =
     Returned 0 [] (dark_cube\<lparr>mode := 1, elapsed := 204\<rparr>) \<and>
   pause 3 [0xFB, 0xFB, 0xFB, 0xFB, 0xFB] (dark_cube\<lparr>p42key := True, elapsed := 101\<rparr>) =
     Returned 1 [] (dark_cube\<lparr>p42key := True, elapsed := 203\<rparr>)"
  by (simp add: run_simps signed_modulo_int_def)

lemma pause_gate_blocked_last:
  "pause_flag s \<Longrightarrow> presses (p41key s) vs = 0 \<Longrightarrow>
   pause_gate vs s = Starved (s\<lparr>p41key := (if vs = [] then p41key s else \<not> P4_1 (last vs))\<rparr>)"
proof (induction vs arbitrary: s)
  case Nil
  then show ?case by simp
next
  case (Cons v vs)
  from Cons.prems have n: "\<not> (\<not> P4_1 v \<and> \<not> p41key s)" and
    r: "presses (\<not> P4_1 v) vs = 0"
    by (auto split: if_splits)
  let ?s1 = "s\<lparr>p41key := \<not> P4_1 v\<rparr>"
  have b: "button1 v s = ?s1" using n by (rule button1_no_press)
  have "pause_flag ?s1" "presses (p41key ?s1) vs = 0"
    using Cons.prems(1) r by simp_all
  from Cons.IH [OF this] b Cons.prems(1) show ?case
    by (simp add: Let_def)
qed

lemma pause_press_blocks:
  assumes "i \<noteq> 0" "\<not> pause_flag s" "\<not> p41key s" "\<not> P4_1 v" "presses True vs = 0"
  shows "pause i (v # vs) s =
     Starved (delay 100 (delay5us s\<lparr>p41key := True, pause_flag := True\<rparr>)
       \<lparr>p41key := \<not> P4_1 (last (v # vs))\<rparr>)"
proof -
  let ?s1 = "delay 100 (delay5us s\<lparr>p41key := True, pause_flag := True\<rparr>)"
  obtain n where n: "unat i = Suc n" using pause_Suc [OF assms(1)] ..
  have b: "button1 v (delay5us s) = ?s1"
    using assms(2-4) by (simp add: button1_press delay5us_frame)
  have "pause_flag ?s1" "presses (p41key ?s1) vs = 0"
    using assms(5) by (simp_all add: delay_eq)
  from pause_gate_blocked_last [OF this] b assms(4)
  have "pause_gate (v # vs) (delay5us s) = Starved (?s1\<lparr>p41key := \<not> P4_1 (last (v # vs))\<rparr>)"
    by (simp add: Let_def delay_eq)
  then show ?thesis by (simp add: pause_def n poll_def)
qed

lemma pause_press_again:
  assumes "i \<noteq> 0" "\<not> pause_flag s" "\<not> p41key s" "\<not> P4_1 v" "presses True vs = 0"
    "\<not> P4_1 w" "presses True (vs @ [w]) = 1"
  shows "pause i (v # vs @ [w]) s =
     Starved (delay 100 (delay 100 (delay5us s\<lparr>p41key := True, pause_flag := False\<rparr>)))"
proof -
  obtain n where n: "unat i = Suc n" using pause_Suc [OF assms(1)] ..
  from pause_resumes [OF assms, of "[]"] show ?thesis
    by (simp add: pause_def n poll_def)
qed

lemma poll_held:
  assumes "\<not> P4_1 v1" "P4_2 v2" "P4_3 v3" "\<not> pause_flag s" "p41key s"
  shows "poll (v1 # v2 # v3 # rest) s =
    Returned False rest (s\<lparr>elapsed := elapsed s + 1, p43key := False\<rparr>)"
  using assms
  by (simp add: poll_def button1_def button2_def button3_def delay5us_def Let_def)

lemma pause_loop_held:
  "list_all (\<lambda>v. \<not> P4_1 v \<and> P4_2 v \<and> P4_3 v) inp \<Longrightarrow> 3 * n \<le> length inp \<Longrightarrow>
   \<not> pause_flag s \<Longrightarrow> p41key s \<Longrightarrow> 0 < n \<Longrightarrow>
   pause_loop n inp s =
     Returned 0 (drop (3 * n) inp) (s\<lparr>elapsed := elapsed s + n, p43key := False\<rparr>)"
proof (induction n arbitrary: inp s)
  case 0
  then show ?case by simp
next
  case (Suc n)
  from Suc.prems(2) obtain v1 v2 v3 rest where i: "inp = v1 # v2 # v3 # rest"
    by (cases inp; cases "tl inp"; cases "tl (tl inp)") auto
  let ?s1 = "s\<lparr>elapsed := elapsed s + 1, p43key := False\<rparr>"
  have p: "poll inp s = Returned False rest ?s1"
    unfolding i using Suc.prems(1,3,4) i by (intro poll_held) simp_all
  show ?case
  proof (cases n)
    case 0
    with p i show ?thesis by simp
  next
    case (Suc m)
    have "pause_loop n rest ?s1 = Returned 0 (drop (3 * n) rest)
        (?s1\<lparr>elapsed := elapsed ?s1 + n, p43key := False\<rparr>)"
      using Suc.prems i Suc by (intro Suc.IH) simp_all
    moreover have "drop (3 + 3 * n) (v1 # v2 # v3 # rest) = drop (3 * n) rest"
      by (simp add: numeral_3_eq_3)
    ultimately show ?thesis using p i by simp
  qed
qed

lemma pause_gate_run:
  "(pause_gate vs s = Starved t \<longrightarrow> t = fold button1 vs s) \<and>
   (pause_gate vs s = Returned u rest t \<longrightarrow> (\<exists>pre. vs = pre @ rest \<and> t = fold button1 pre s))"
proof (induction vs s rule: pause_gate.induct)
  case (1 s)
  then show ?case by simp
next
  case (2 v vs s)
  show ?case
  proof (cases "pause_flag (button1 v s)")
    case True
    with 2 have ih: "(pause_gate vs (button1 v s) = Starved t \<longrightarrow> t = fold button1 vs (button1 v s)) \<and>
      (pause_gate vs (button1 v s) = Returned u rest t \<longrightarrow>
         (\<exists>pre. vs = pre @ rest \<and> t = fold button1 pre (button1 v s)))"
      by simp
    have g: "pause_gate (v # vs) s = pause_gate vs (button1 v s)"
      using True by (simp add: Let_def)
    show ?thesis
    proof (intro conjI impI)
      assume "pause_gate (v # vs) s = Starved t"
      with g ih show "t = fold button1 (v # vs) s" by simp
    next
      assume "pause_gate (v # vs) s = Returned u rest t"
      with g ih obtain pre where "vs = pre @ rest" "t = fold button1 pre (button1 v s)" by auto
      then have "v # vs = (v # pre) @ rest \<and> t = fold button1 (v # pre) s" by simp
      then show "\<exists>pre. v # vs = pre @ rest \<and> t = fold button1 pre s" by (rule exI)
    qed
  next
    case False
    then have g: "pause_gate (v # vs) s = Returned () vs (button1 v s)" by (simp add: Let_def)
    show ?thesis
    proof (intro conjI impI)
      assume "pause_gate (v # vs) s = Starved t"
      with g show "t = fold button1 (v # vs) s" by simp
    next
      assume "pause_gate (v # vs) s = Returned u rest t"
      with g have "v # vs = [v] @ rest \<and> t = fold button1 [v] s" by simp
      then show "\<exists>pre. v # vs = pre @ rest \<and> t = fold button1 pre s" by (rule exI)
    qed
  qed
qed

lemma buttons23_keep_pause:
  "pause_flag (snd (button2 v s)) = pause_flag s \<and> p41key (snd (button2 v s)) = p41key s \<and>
   pause_flag (snd (button3 v s)) = pause_flag s \<and> p41key (snd (button3 v s)) = p41key s \<and>
   pause_flag (delay5us s) = pause_flag s \<and> p41key (delay5us s) = p41key s"
  by (simp add: button2_def button3_def delay_eq delay5us_def)

lemma button1_toggle_iff:
  "pause_flag (button1 v s) \<noteq> pause_flag s \<longleftrightarrow> \<not> P4_1 v \<and> \<not> p41key s"
  by (simp add: button1_flag)

lemma held_toggles_once:
  "vs \<noteq> [] \<and> list_all (\<lambda>v. \<not> P4_1 v) vs \<and> \<not> p41key s \<longrightarrow>
      toggles vs s = 1 \<and>
      (i \<noteq> 0 \<and> \<not> pause_flag s \<longrightarrow> (\<exists>t. pause i vs s = Starved t \<and> pause_flag t))"
proof (intro conjI impI)
  assume a: "vs \<noteq> [] \<and> list_all (\<lambda>v. \<not> P4_1 v) vs \<and> \<not> p41key s"
  then show "toggles vs s = 1" by (simp add: toggles_presses presses_held_new)
  assume b: "i \<noteq> 0 \<and> \<not> pause_flag s"
  from a obtain w ws where vs: "vs = w # ws" by (cases vs) auto
  with a have "\<not> P4_1 w" "presses True ws = 0" by (simp_all add: presses_held)
  from pause_held_blocks [of i s w ws] this a b vs
  show "\<exists>t. pause i vs s = Starved t \<and> pause_flag t"
    by (auto simp: delay_eq delay5us_def)
qed

lemma press_pauses_once:
  "i \<noteq> 0 \<and> \<not> pause_flag s \<and> \<not> p41key s \<and> \<not> P4_1 v \<and> presses True vs = 0 \<longrightarrow>
      pause i (v # vs) s =
        Starved (delay 100 (delay5us s\<lparr>p41key := True, pause_flag := True\<rparr>)
          \<lparr>p41key := \<not> P4_1 (last (v # vs))\<rparr>)"
  using pause_press_blocks [of i s v vs] by blast

lemma second_press_resumes:
  "i \<noteq> 0 \<and> \<not> pause_flag s \<and> \<not> p41key s \<and> \<not> P4_1 v \<and> presses True vs = 0 \<and>
    \<not> P4_1 w \<and> presses True (vs @ [w]) = 1 \<longrightarrow>
      pause i (v # vs @ [w]) s =
        Starved (delay 100 (delay 100 (delay5us s\<lparr>p41key := True, pause_flag := False\<rparr>)))"
  using pause_press_again [of i s v vs w] by blast

lemma held_polls_keep_flag:
  "i \<noteq> 0 \<and> \<not> pause_flag s \<and> p41key s \<and>
    list_all (\<lambda>v. \<not> P4_1 v \<and> P4_2 v \<and> P4_3 v) inp \<and> 3 * unat i \<le> length inp \<longrightarrow>
      pause i inp s =
        Returned 0 (drop (3 * unat i) inp) (s\<lparr>elapsed := elapsed s + unat i, p43key := False\<rparr>)"
proof
  assume a: "i \<noteq> 0 \<and> \<not> pause_flag s \<and> p41key s \<and>
    list_all (\<lambda>v. \<not> P4_1 v \<and> P4_2 v \<and> P4_3 v) inp \<and> 3 * unat i \<le> length inp"
  then have "0 < unat i" by (simp add: unat_gt_0)
  with a pause_loop_held [of inp "unat i" s]
  show "pause i inp s =
        Returned 0 (drop (3 * unat i) inp) (s\<lparr>elapsed := elapsed s + unat i, p43key := False\<rparr>)"
    by (simp add: pause_def)
qed

lemma released_polls_keep_flag:
  "i \<noteq> 0 \<and> \<not> pause_flag s \<and>
    list_all (\<lambda>v. P4_1 v \<and> P4_2 v \<and> P4_3 v) inp \<and> 3 * unat i \<le> length inp \<longrightarrow>
      pause i inp s =
        Returned 0 (drop (3 * unat i) inp)
          (s\<lparr>elapsed := elapsed s + unat i, p41key := False, p43key := False\<rparr>)"
proof
  assume a: "i \<noteq> 0 \<and> \<not> pause_flag s \<and>
    list_all (\<lambda>v. P4_1 v \<and> P4_2 v \<and> P4_3 v) inp \<and> 3 * unat i \<le> length inp"
  then have "0 < unat i" by (simp add: unat_gt_0)
  with a pause_loop_idle [of inp "unat i" s]
  show "pause i inp s =
        Returned 0 (drop (3 * unat i) inp)
          (s\<lparr>elapsed := elapsed s + unat i, p41key := False, p43key := False\<rparr>)"
    by (simp add: pause_def)
qed

text \<open>
  C4. One poll of button 1 (the body of the inner loop of \<open>pause\<close>) changes the
  pause flag exactly when the button is down and its latch is clear, and leaves the
  latch set exactly when the button is down; over any samples the flag changes once
  for each new press, and once in all when the button is held down over N polls.
  The inner loop of \<open>pause\<close> is this poll repeated on the samples it reads, and
  the rest of \<open>pause\<close> (the polls of the buttons 2 and 3, the delay) leaves flag
  and latch alone. For \<open>pause\<close> itself: a press from a clear latch, held or
  released but not pressed anew, leaves the call paused after exactly one debounce
  delay; the next new press clears the flag after exactly one more; and with the
  flag clear, polls that find the button still held, or released, return 0 with the
  flag still clear and no debounce delay.
\<close>

theorem pause_toggles_once_per_press:
  "(pause_flag (button1 v s) \<noteq> pause_flag s \<longleftrightarrow> \<not> P4_1 v \<and> \<not> p41key s) \<and>
   p41key (button1 v s) = (\<not> P4_1 v) \<and>
   toggles vs s = presses (p41key s) vs \<and>
   (vs \<noteq> [] \<and> list_all (\<lambda>v. \<not> P4_1 v) vs \<and> \<not> p41key s \<longrightarrow>
      toggles vs s = 1 \<and>
      (i \<noteq> 0 \<and> \<not> pause_flag s \<longrightarrow> (\<exists>t. pause i vs s = Starved t \<and> pause_flag t))) \<and>
   (pause_flag (snd (button2 v s)) = pause_flag s \<and> p41key (snd (button2 v s)) = p41key s \<and>
    pause_flag (snd (button3 v s)) = pause_flag s \<and> p41key (snd (button3 v s)) = p41key s \<and>
    pause_flag (delay5us s) = pause_flag s \<and> p41key (delay5us s) = p41key s) \<and>
   ((pause_gate vs s = Starved t \<longrightarrow> t = fold button1 vs s) \<and>
    (pause_gate vs s = Returned u rest t \<longrightarrow>
       (\<exists>pre. vs = pre @ rest \<and> t = fold button1 pre s))) \<and>
   (i \<noteq> 0 \<and> \<not> pause_flag s \<and> \<not> p41key s \<and> \<not> P4_1 v \<and> presses True vs = 0 \<longrightarrow>
      pause i (v # vs) s =
        Starved (delay 100 (delay5us s\<lparr>p41key := True, pause_flag := True\<rparr>)
          \<lparr>p41key := \<not> P4_1 (last (v # vs))\<rparr>)) \<and>
   (i \<noteq> 0 \<and> \<not> pause_flag s \<and> \<not> p41key s \<and> \<not> P4_1 v \<and> presses True vs = 0 \<and>
    \<not> P4_1 w \<and> presses True (vs @ [w]) = 1 \<longrightarrow>
      pause i (v # vs @ [w]) s =
        Starved (delay 100 (delay 100 (delay5us s\<lparr>p41key := True, pause_flag := False\<rparr>)))) \<and>
   (i \<noteq> 0 \<and> \<not> pause_flag s \<and> p41key s \<and>
    list_all (\<lambda>v. \<not> P4_1 v \<and> P4_2 v \<and> P4_3 v) inp \<and> 3 * unat i \<le> length inp \<longrightarrow>
      pause i inp s =
        Returned 0 (drop (3 * unat i) inp) (s\<lparr>elapsed := elapsed s + unat i, p43key := False\<rparr>)) \<and>
   (i \<noteq> 0 \<and> \<not> pause_flag s \<and>
    list_all (\<lambda>v. P4_1 v \<and> P4_2 v \<and> P4_3 v) inp \<and> 3 * unat i \<le> length inp \<longrightarrow>
      pause i inp s =
        Returned 0 (drop (3 * unat i) inp)
          (s\<lparr>elapsed := elapsed s + unat i, p41key := False, p43key := False\<rparr>))"
  apply (rule conjI, rule button1_toggle_iff)
  apply (rule conjI, rule button1_latch)
  apply (rule conjI, rule toggles_presses)
  apply (rule conjI, rule held_toggles_once)
  apply (rule conjI, rule buttons23_keep_pause)
  apply (rule conjI, rule pause_gate_run)
  apply (rule conjI, rule press_pauses_once)
  apply (rule conjI, rule second_press_resumes)
  apply (rule conjI, rule held_polls_keep_flag)
  apply (rule released_polls_keep_flag)
  done


theorem pause_toggles_once_per_press_witness:
  "toggles [0xFD, 0xFD, 0xFD] dark_cube = 1 \<and>
   (\<exists>t. pause 7 [0xFD, 0xFD, 0xFD] dark_cube = Starved t \<and> pause_flag t) \<and>
   pause 5 [0xFD, 0xFD, 0xFF] dark_cube =
     Starved (dark_cube\<lparr>pause_flag := True, elapsed := 101\<rparr>) \<and>
   pause 5 [0xFD, 0xFD, 0xFF, 0xFD] dark_cube =
     Starved (dark_cube\<lparr>p41key := True, elapsed := 201\<rparr>) \<and>
   pause 2 [0xFD, 0xFD, 0xFD, 0xFD, 0xFD, 0xFD] (dark_cube\<lparr>p41key := True\<rparr>) =
     Returned 0 [] (dark_cube\<lparr>p41key := True, elapsed := 2\<rparr>) \<and>
   pause 2 [0xFF, 0xFF, 0xFF, 0xFF, 0xFF, 0xFF] (dark_cube\<lparr>p41key := True\<rparr>) =
     Returned 0 [] (dark_cube\<lparr>elapsed := 2\<rparr>)"
proof (intro conjI)
  have h: "[0xFD, 0xFD, 0xFD] \<noteq> [] \<and> list_all (\<lambda>v. \<not> P4_1 v) [0xFD, 0xFD, 0xFD] \<and>
      \<not> p41key dark_cube"
    by (simp add: P4_samples dark_cube_simps)
  have i: "(7 :: 16 word) \<noteq> 0 \<and> \<not> pause_flag dark_cube"
    by (simp add: dark_cube_simps)
  note A = pause_toggles_once_per_press [where s = dark_cube and vs = "[0xFD, 0xFD, 0xFD]"
      and i = 7, THEN conjunct2, THEN conjunct2, THEN conjunct2, THEN conjunct1, THEN mp, OF h]
  from A show "toggles [0xFD, 0xFD, 0xFD] dark_cube = 1" by (rule conjunct1)
  from A [THEN conjunct2, THEN mp, OF i]
  show "\<exists>t. pause 7 [0xFD, 0xFD, 0xFD] dark_cube = Starved t \<and> pause_flag t" .
  have b: "(5 :: 16 word) \<noteq> 0 \<and> \<not> pause_flag dark_cube \<and> \<not> p41key dark_cube \<and> \<not> P4_1 0xFD \<and>
      presses True [0xFD, 0xFF] = 0"
    by (simp add: P4_samples dark_cube_simps)
  from pause_toggles_once_per_press [where s = dark_cube and v = "0xFD" and vs = "[0xFD, 0xFF]"
      and i = 5, THEN conjunct2, THEN conjunct2, THEN conjunct2, THEN conjunct2, THEN conjunct2, THEN conjunct2, THEN conjunct1, THEN mp, OF b]
  show "pause 5 [0xFD, 0xFD, 0xFF] dark_cube =
     Starved (dark_cube\<lparr>pause_flag := True, elapsed := 101\<rparr>)"
    by (simp add: delay_eq delay5us_def dark_cube_def init_cube_def P4_samples)
  have c: "(5 :: 16 word) \<noteq> 0 \<and> \<not> pause_flag dark_cube \<and> \<not> p41key dark_cube \<and> \<not> P4_1 0xFD \<and>
      presses True [0xFD, 0xFF] = 0 \<and> \<not> P4_1 0xFD \<and> presses True ([0xFD, 0xFF] @ [0xFD]) = 1"
    by (simp add: P4_samples dark_cube_simps)
  from pause_toggles_once_per_press [where s = dark_cube and v = "0xFD" and vs = "[0xFD, 0xFF]"
      and w = "0xFD" and i = 5, THEN conjunct2, THEN conjunct2, THEN conjunct2, THEN conjunct2, THEN conjunct2, THEN conjunct2, THEN conjunct2, THEN conjunct1, THEN mp, OF c]
  show "pause 5 [0xFD, 0xFD, 0xFF, 0xFD] dark_cube =
     Starved (dark_cube\<lparr>p41key := True, elapsed := 201\<rparr>)"
    by (simp add: delay_eq delay5us_def dark_cube_def init_cube_def)
  have d: "(2 :: 16 word) \<noteq> 0 \<and> \<not> pause_flag (dark_cube\<lparr>p41key := True\<rparr>) \<and>
      p41key (dark_cube\<lparr>p41key := True\<rparr>) \<and>
      list_all (\<lambda>v. \<not> P4_1 v \<and> P4_2 v \<and> P4_3 v) [0xFD, 0xFD, 0xFD, 0xFD, 0xFD, 0xFD] \<and>
      3 * unat (2 :: 16 word) \<le> length [0xFD :: byte, 0xFD, 0xFD, 0xFD, 0xFD, 0xFD]"
    by (simp add: P4_samples dark_cube_simps)
  from pause_toggles_once_per_press [where s = "dark_cube\<lparr>p41key := True\<rparr>"
      and inp = "[0xFD, 0xFD, 0xFD, 0xFD, 0xFD, 0xFD]" and i = 2, THEN conjunct2, THEN conjunct2, THEN conjunct2, THEN conjunct2, THEN conjunct2, THEN conjunct2, THEN conjunct2, THEN conjunct2, THEN conjunct1, THEN mp, OF d]
  show "pause 2 [0xFD, 0xFD, 0xFD, 0xFD, 0xFD, 0xFD] (dark_cube\<lparr>p41key := True\<rparr>) =
     Returned 0 [] (dark_cube\<lparr>p41key := True, elapsed := 2\<rparr>)"
    by (simp add: dark_cube_def init_cube_def)
  have e: "(2 :: 16 word) \<noteq> 0 \<and> \<not> pause_flag (dark_cube\<lparr>p41key := True\<rparr>) \<and>
      list_all (\<lambda>v. P4_1 v \<and> P4_2 v \<and> P4_3 v) [0xFF, 0xFF, 0xFF, 0xFF, 0xFF, 0xFF] \<and>
      3 * unat (2 :: 16 word) \<le> length [0xFF :: byte, 0xFF, 0xFF, 0xFF, 0xFF, 0xFF]"
    by (simp add: P4_samples dark_cube_simps)
  from pause_toggles_once_per_press [where s = "dark_cube\<lparr>p41key := True\<rparr>"
      and inp = "[0xFF, 0xFF, 0xFF, 0xFF, 0xFF, 0xFF]" and i = 2, THEN conjunct2, THEN conjunct2, THEN conjunct2, THEN conjunct2, THEN conjunct2, THEN conjunct2, THEN conjunct2, THEN conjunct2, THEN conjunct2, THEN mp, OF e]
  show "pause 2 [0xFF, 0xFF, 0xFF, 0xFF, 0xFF, 0xFF] (dark_cube\<lparr>p41key := True\<rparr>) =
     Returned 0 [] (dark_cube\<lparr>elapsed := 2\<rparr>)"
    by (simp add: dark_cube_def init_cube_def)
qed

section \<open>The display routines\<close>

lemma store_only_display: "store z y b s = s\<lparr>display := display (store z y b s)\<rparr>"
  by (simp add: store_def)

lemma fold_only_display:
  assumes "\<And>k t. f k t = t\<lparr>display := display (f k t)\<rparr>"
  shows "fold f ks s = s\<lparr>display := display (fold f ks s)\<rparr>"
proof (induction ks arbitrary: s)
  case Nil
  show ?case by simp
next
  case (Cons k ks)
  have "fold f (k # ks) s = fold f ks (f k s)" by simp
  also have "\<dots> = (f k s)\<lparr>display := display (fold f ks (f k s))\<rparr>" by (rule Cons.IH)
  also have "\<dots> = (s\<lparr>display := display (f k s)\<rparr>)\<lparr>display := display (fold f ks (f k s))\<rparr>"
    using assms [of k s] by simp
  also have "\<dots> = s\<lparr>display := display (fold f (k # ks) s)\<rparr>" by simp
  finally show ?case .
qed

lemma set_all_only_display: "set_all v s = s\<lparr>display := display (set_all v s)\<rparr>"
  unfolding set_all_def
  by (intro fold_only_display store_only_display)

lemma set_x_plane_only_display: "set_x_plane x v s = s\<lparr>display := display (set_x_plane x v s)\<rparr>"
  unfolding set_x_plane_def
  by (intro fold_only_display) (simp add: store_def)

lemma set_y_plane_only_display: "set_y_plane y v s = s\<lparr>display := display (set_y_plane y v s)\<rparr>"
  unfolding set_y_plane_def
  by (intro fold_only_display) (simp add: store_def)

lemma set_z_plane_only_display: "set_z_plane z v s = s\<lparr>display := display (set_z_plane z v s)\<rparr>"
  unfolding set_z_plane_def
  by (intro fold_only_display) (simp add: store_def)

lemma set_point_only_display: "set_point x y z v s = s\<lparr>display := display (set_point x y z v s)\<rparr>"
  by (simp add: set_point_def store_def)

lemma character_on_y_only_display:
  "character_on_y y c s = s\<lparr>display := display (character_on_y y c s)\<rparr>"
  unfolding character_on_y_def
  by (intro fold_only_display store_only_display)

lemma only_display_fields:
  assumes "t = s\<lparr>display := d\<rparr>"
  shows "mode t = mode s" "pause_flag t = pause_flag s" "p41key t = p41key s"
    "p42key t = p42key s" "p43key t = p43key s" "layer t = layer s" "elapsed t = elapsed s"
  using assms by simp_all

lemmas set_all_fields = only_display_fields [OF set_all_only_display]
lemmas set_x_plane_fields = only_display_fields [OF set_x_plane_only_display]
lemmas set_y_plane_fields = only_display_fields [OF set_y_plane_only_display]
lemmas set_z_plane_fields = only_display_fields [OF set_z_plane_only_display]
lemmas set_point_fields = only_display_fields [OF set_point_only_display]
lemmas character_on_y_fields = only_display_fields [OF character_on_y_only_display]

lemma pause_press2:
  assumes "i \<noteq> 0" "P4_1 v1" "\<not> P4_2 v2" "\<not> pause_flag s" "\<not> p42key s"
  shows "pause i (v1 # v2 # rest) s =
    Returned 1 rest (s\<lparr>elapsed := elapsed s + 101, p41key := False, p42key := True, mode := 0\<rparr>)"
proof -
  obtain n where n: "unat i = Suc n" using pause_Suc [OF assms(1)] ..
  show ?thesis using assms(2-)
    by (simp add: pause_def n poll_def button1_def button2_def delay_eq delay5us_def Let_def)
qed


lemma pause_Returned:
  assumes "pause i inp s = Returned r inp' t"
  shows "(r = 0 \<or> r = 1) \<and> layer t = layer s \<and> display t = display s \<and>
    (r = 0 \<longrightarrow> mode t = mode s) \<and>
    (r = 1 \<longrightarrow> mode t = 0 \<or> mode t = (mode s + 1) smod 5) \<and>
    length inp' \<le> length inp \<and> (i \<noteq> 0 \<longrightarrow> length inp' < length inp)"
proof -
  from assms have l: "pause_loop (unat i) inp s = Returned r inp' t" by (simp add: pause_def)
  have "i \<noteq> 0 \<longrightarrow> 0 < unat i" by (simp add: unat_gt_0)
  with pause_loop_Returned [OF l] pause_loop_frame [of "unat i" inp s t r inp'] l
  show ?thesis by auto
qed

lemma pause_Starved:
  assumes "pause i inp s = Starved t"
  shows "layer t = layer s \<and> display t = display s \<and> mode t = mode s"
  using assms pause_loop_frame [of "unat i" inp s t] pause_loop_Starved [of "unat i" inp s t]
  by (simp add: pause_def)

lemma sweep_Returned:
  assumes on: "\<And>k t. on k t = t\<lparr>display := display (on k t)\<rparr>"
    and off: "\<And>k t. off k t = t\<lparr>display := display (off k t)\<rparr>"
  shows "sweep i on off ks inp s = Returned r inp' t \<Longrightarrow>
    (r = 0 \<or> r = 1) \<and> layer t = layer s \<and>
    (r = 0 \<longrightarrow> mode t = mode s) \<and>
    (r = 1 \<longrightarrow> mode t = 0 \<or> mode t = (mode s + 1) smod 5) \<and>
    length inp' \<le> length inp \<and> (ks \<noteq> [] \<and> i \<noteq> 0 \<longrightarrow> length inp' < length inp)"
proof (induction ks arbitrary: inp s)
  case Nil
  then show ?case by simp
next
  case (Cons k ks)
  from Cons.prems obtain r1 inp1 s1 where p: "pause i inp (on k s) = Returned r1 inp1 s1"
    by (cases "pause i inp (on k s)") auto
  note q = pause_Returned [OF p]
  have m: "mode (on k s) = mode s" "layer (on k s) = layer s"
    using only_display_fields [OF on [of k s]] by simp_all
  show ?case
  proof (cases "r1 = 0")
    case False
    with p Cons.prems have "r = 1" "inp' = inp1" "t = s1" by simp_all
    with q m False show ?thesis by auto
  next
    case True
    with p Cons.prems have l: "sweep i on off ks inp1 (off k s1) = Returned r inp' t" by simp
    have n: "mode (off k s1) = mode s1" "layer (off k s1) = layer s1"
      using only_display_fields [OF off [of k s1]] by simp_all
    from Cons.IH [OF l] q m n True show ?thesis by auto
  qed
qed

lemma sweep_Starved:
  assumes on: "\<And>k t. on k t = t\<lparr>display := display (on k t)\<rparr>"
    and off: "\<And>k t. off k t = t\<lparr>display := display (off k t)\<rparr>"
  shows "sweep i on off ks inp s = Starved t \<Longrightarrow> layer t = layer s \<and> mode t = mode s"
proof (induction ks arbitrary: inp s)
  case Nil
  then show ?case by simp
next
  case (Cons k ks)
  have m: "mode (on k s) = mode s" "layer (on k s) = layer s"
    using only_display_fields [OF on [of k s]] by simp_all
  show ?case
  proof (cases "pause i inp (on k s)")
    case (Starved t')
    with Cons.prems pause_Starved [of i inp "on k s" t] m show ?thesis by simp
  next
    case (Returned r1 inp1 s1)
    note q = pause_Returned [OF Returned]
    from Returned Cons.prems have z: "r1 = 0"
      and l: "sweep i on off ks inp1 (off k s1) = Starved t"
      by (auto split: if_splits)
    have n: "mode (off k s1) = mode s1" "layer (off k s1) = layer s1"
      using only_display_fields [OF off [of k s1]] by simp_all
    from Cons.IH [OF l] q m n z show ?thesis by simp
  qed
qed

lemma sweep_first:
  "pause i inp (on k s) = Returned r inp' t \<Longrightarrow> r \<noteq> 0 \<Longrightarrow>
   sweep i on off (k # ks) inp s = Returned 1 inp' t"
  by simp


lemma point_order_Cons: "\<exists>ks. point_order = (0, 0, 0) # ks"
  by (simp add: point_order_def upt_conv_Cons)

lemma glyph_order_Cons: "\<exists>ks. glyph_order = (0, 0) # ks"
  by (simp add: glyph_order_def upt_conv_Cons)

lemma upt8_Cons: "[0..<8] = 0 # [1..<8]"
  by (simp add: upt_conv_Cons)

lemma points_on: "(case k of (x, y, z) \<Rightarrow> set_point (of_nat x) (of_nat y) (of_nat z) v) t =
    t\<lparr>display := display ((case k of (x, y, z) \<Rightarrow> set_point (of_nat x) (of_nat y) (of_nat z) v) t)\<rparr>"
  unfolding case_prod_beta by (rule set_point_only_display)

lemma dave_on: "(case k of (c, y) \<Rightarrow> character_on_y (of_nat y) (dave_glyphs ! c)) t =
    t\<lparr>display := display ((case k of (c, y) \<Rightarrow> character_on_y (of_nat y) (dave_glyphs ! c)) t)\<rparr>"
  unfolding case_prod_beta by (rule character_on_y_only_display)

lemma dave_off: "(case k of (c :: nat, y) \<Rightarrow> set_y_plane (of_nat y) 0) t =
    t\<lparr>display := display ((case k of (c :: nat, y) \<Rightarrow> set_y_plane (of_nat y) 0) t)\<rparr>"
  unfolding case_prod_beta by (rule set_y_plane_only_display)

lemma all_Returned:
  assumes "all inp s = Returned r inp' t"
  shows "(r = 0 \<or> r = 1) \<and> layer t = layer s \<and> (r = 0 \<longrightarrow> mode t = mode s) \<and>
    (r = 1 \<longrightarrow> mode t = 0 \<or> mode t = (mode s + 1) smod 5) \<and> length inp' < length inp"
proof -
  from assms obtain r1 inp1 s1 where p: "pause 60000 inp (set_all 1 s) = Returned r1 inp1 s1"
    by (cases "pause 60000 inp (set_all 1 s)") (auto simp: all_def)
  note q = pause_Returned [OF p] set_all_fields [of 1 s]
  show ?thesis
  proof (cases "r1 = 0")
    case False
    with p assms have "r = 1" "inp' = inp1" "t = s1" by (simp_all add: all_def)
    with q False show ?thesis by auto
  next
    case True
    with p assms obtain r2 where p2: "pause 60000 inp1 (set_all 0 s1) = Returned r2 inp' t"
      and r: "r = (if r2 \<noteq> 0 then 1 else 0)"
      by (cases "pause 60000 inp1 (set_all 0 s1)") (auto simp: all_def split: if_splits)
    from pause_Returned [OF p2] set_all_fields [of 0 s1] q True r show ?thesis by auto
  qed
qed

lemma all_Starved:
  assumes "all inp s = Starved t"
  shows "layer t = layer s \<and> mode t = mode s"
proof (cases "pause 60000 inp (set_all 1 s)")
  case (Starved t')
  with assms pause_Starved [of 60000 inp "set_all 1 s" t] set_all_fields [of 1 s]
  show ?thesis by (simp add: all_def)
next
  case (Returned r1 inp1 s1)
  with assms have z: "r1 = 0" and p2: "pause 60000 inp1 (set_all 0 s1) = Starved t"
    by (auto simp: all_def split: if_splits result.splits)
  from pause_Returned [OF Returned] pause_Starved [OF p2] set_all_fields [of 1 s]
    set_all_fields [of 0 s1] z
  show ?thesis by simp
qed

lemma points_Returned:
  assumes "points inp s = Returned r inp' t"
  shows "(r = 0 \<or> r = 1) \<and> layer t = layer s \<and> (r = 0 \<longrightarrow> mode t = mode s) \<and>
    (r = 1 \<longrightarrow> mode t = 0 \<or> mode t = (mode s + 1) smod 5) \<and> length inp' < length inp"
proof -
  have ne: "point_order \<noteq> []" using point_order_Cons by auto
  from sweep_Returned [OF points_on points_on assms [unfolded points_def]] ne
    set_all_fields [of 0 s]
  show ?thesis by simp
qed

lemma points_Starved:
  assumes "points inp s = Starved t"
  shows "layer t = layer s \<and> mode t = mode s"
  using sweep_Starved [OF points_on points_on assms [unfolded points_def]] set_all_fields [of 0 s]
  by simp


lemmas sweep_x_Returned = sweep_Returned [where on = "\<lambda>x. set_x_plane (of_nat x) 1"
    and off = "\<lambda>x. set_x_plane (of_nat x) 0", OF set_x_plane_only_display set_x_plane_only_display]
lemmas sweep_y_Returned = sweep_Returned [where on = "\<lambda>y. set_y_plane (of_nat y) 1"
    and off = "\<lambda>y. set_y_plane (of_nat y) 0", OF set_y_plane_only_display set_y_plane_only_display]
lemmas sweep_z_Returned = sweep_Returned [where on = "\<lambda>z. set_z_plane (of_nat z) 1"
    and off = "\<lambda>z. set_z_plane (of_nat z) 0", OF set_z_plane_only_display set_z_plane_only_display]
lemmas sweep_x_Starved = sweep_Starved [where on = "\<lambda>x. set_x_plane (of_nat x) 1"
    and off = "\<lambda>x. set_x_plane (of_nat x) 0", OF set_x_plane_only_display set_x_plane_only_display]
lemmas sweep_y_Starved = sweep_Starved [where on = "\<lambda>y. set_y_plane (of_nat y) 1"
    and off = "\<lambda>y. set_y_plane (of_nat y) 0", OF set_y_plane_only_display set_y_plane_only_display]
lemmas sweep_z_Starved = sweep_Starved [where on = "\<lambda>z. set_z_plane (of_nat z) 1"
    and off = "\<lambda>z. set_z_plane (of_nat z) 0", OF set_z_plane_only_display set_z_plane_only_display]

lemma planes_Returned:
  assumes "planes inp s = Returned r inp' t"
  shows "(r = 0 \<or> r = 1) \<and> layer t = layer s \<and> (r = 0 \<longrightarrow> mode t = mode s) \<and>
    (r = 1 \<longrightarrow> mode t = 0 \<or> mode t = (mode s + 1) smod 5) \<and> length inp' < length inp"
proof -
  let ?X = "sweep 10000 (\<lambda>x. set_x_plane (of_nat x) 1) (\<lambda>x. set_x_plane (of_nat x) 0) [0..<8]"
  let ?Y = "sweep 10000 (\<lambda>y. set_y_plane (of_nat y) 1) (\<lambda>y. set_y_plane (of_nat y) 0) [0..<8]"
  let ?Z = "sweep 10000 (\<lambda>z. set_z_plane (of_nat z) 1) (\<lambda>z. set_z_plane (of_nat z) 0) [0..<8]"
  from assms obtain r1 inp1 s1 where x: "?X inp (set_all 0 s) = Returned r1 inp1 s1"
    by (cases "?X inp (set_all 0 s)") (auto simp: planes_def)
  have qx: "(r1 = 0 \<or> r1 = 1) \<and> layer s1 = layer s \<and> (r1 = 0 \<longrightarrow> mode s1 = mode s) \<and>
    (r1 = 1 \<longrightarrow> mode s1 = 0 \<or> mode s1 = (mode s + 1) smod 5) \<and> length inp1 < length inp"
    using sweep_x_Returned [OF x] set_all_fields [of 0 s] by simp
  show ?thesis
  proof (cases "r1 = 0")
    case False
    with x assms have "r = 1" "inp' = inp1" "t = s1" by (simp_all add: planes_def)
    with qx False show ?thesis by auto
  next
    case True
    with x assms obtain r2 inp2 s2 where y: "?Y inp1 s1 = Returned r2 inp2 s2"
      by (cases "?Y inp1 s1") (auto simp: planes_def)
    note qy = sweep_y_Returned [OF y]
    show ?thesis
    proof (cases "r2 = 0")
      case False
      with x y True assms have "r = 1" "inp' = inp2" "t = s2" by (simp_all add: planes_def)
      with qx qy True False show ?thesis by auto
    next
      case r2: True
      with x y True assms have z: "?Z inp2 s2 = Returned r inp' t" by (simp add: planes_def)
      from sweep_z_Returned [OF z] qx qy True r2 show ?thesis by auto
    qed
  qed
qed

lemma planes_Starved:
  assumes "planes inp s = Starved t"
  shows "layer t = layer s \<and> mode t = mode s"
proof -
  let ?X = "sweep 10000 (\<lambda>x. set_x_plane (of_nat x) 1) (\<lambda>x. set_x_plane (of_nat x) 0) [0..<8]"
  let ?Y = "sweep 10000 (\<lambda>y. set_y_plane (of_nat y) 1) (\<lambda>y. set_y_plane (of_nat y) 0) [0..<8]"
  let ?Z = "sweep 10000 (\<lambda>z. set_z_plane (of_nat z) 1) (\<lambda>z. set_z_plane (of_nat z) 0) [0..<8]"
  show ?thesis
  proof (cases "?X inp (set_all 0 s)")
    case (Starved t')
    with assms have "?X inp (set_all 0 s) = Starved t" by (simp add: planes_def)
    from sweep_x_Starved [OF this] set_all_fields [of 0 s] show ?thesis by simp
  next
    case (Returned r1 inp1 s1)
    note qx = sweep_x_Returned [OF Returned] set_all_fields [of 0 s]
    from Returned assms have r1: "r1 = 0" by (auto simp: planes_def split: if_splits)
    show ?thesis
    proof (cases "?Y inp1 s1")
      case (Starved t')
      with Returned r1 assms have "?Y inp1 s1 = Starved t" by (simp add: planes_def)
      from sweep_y_Starved [OF this] qx r1 show ?thesis by simp
    next
      case y: (Returned r2 inp2 s2)
      note qy = sweep_y_Returned [OF y]
      from Returned y r1 assms have r2: "r2 = 0" and z: "?Z inp2 s2 = Starved t"
        by (auto simp: planes_def split: if_splits)
      from sweep_z_Starved [OF z] qx qy r1 r2 show ?thesis by simp
    qed
  qed
qed

lemma dave_Returned:
  assumes "dave inp s = Returned r inp' t"
  shows "(r = 0 \<or> r = 1) \<and> layer t = layer s \<and> (r = 0 \<longrightarrow> mode t = mode s) \<and>
    (r = 1 \<longrightarrow> mode t = 0 \<or> mode t = (mode s + 1) smod 5) \<and> length inp' < length inp"
proof -
  let ?S = "sweep 5000 (\<lambda>(c, y). character_on_y (of_nat y) (dave_glyphs ! c))
             (\<lambda>(c, y). set_y_plane (of_nat y) 0) glyph_order"
  have ne: "glyph_order \<noteq> []" using glyph_order_Cons by auto
  from assms obtain r1 inp1 s1 where x: "?S inp (set_all 0 s) = Returned r1 inp1 s1"
    by (cases "?S inp (set_all 0 s)") (auto simp: dave_def)
  have qx: "(r1 = 0 \<or> r1 = 1) \<and> layer s1 = layer s \<and> (r1 = 0 \<longrightarrow> mode s1 = mode s) \<and>
    (r1 = 1 \<longrightarrow> mode s1 = 0 \<or> mode s1 = (mode s + 1) smod 5) \<and> length inp1 < length inp"
    using sweep_Returned [OF dave_on dave_off x] set_all_fields [of 0 s] ne by simp
  show ?thesis
  proof (cases "r1 = 0")
    case False
    with x assms have "r = 1" "inp' = inp1" "t = s1" by (simp_all add: dave_def)
    with qx False show ?thesis by auto
  next
    case True
    with x assms obtain r2 where p2: "pause 30000 inp1 (set_all 1 s1) = Returned r2 inp' t"
      and r: "r = (if r2 \<noteq> 0 then 1 else 0)"
      by (cases "pause 30000 inp1 (set_all 1 s1)") (auto simp: dave_def split: if_splits)
    from pause_Returned [OF p2] set_all_fields [of 1 s1] qx True r show ?thesis by auto
  qed
qed

lemma dave_Starved:
  assumes "dave inp s = Starved t"
  shows "layer t = layer s \<and> mode t = mode s"
proof -
  let ?S = "sweep 5000 (\<lambda>(c, y). character_on_y (of_nat y) (dave_glyphs ! c))
             (\<lambda>(c, y). set_y_plane (of_nat y) 0) glyph_order"
  show ?thesis
  proof (cases "?S inp (set_all 0 s)")
    case (Starved t')
    with assms have "?S inp (set_all 0 s) = Starved t" by (simp add: dave_def)
    from sweep_Starved [OF dave_on dave_off this] set_all_fields [of 0 s] show ?thesis by simp
  next
    case (Returned r1 inp1 s1)
    note qx = sweep_Returned [OF dave_on dave_off Returned] set_all_fields [of 0 s]
    from Returned assms have r1: "r1 = 0" and
      p2: "pause 30000 inp1 (set_all 1 s1) = Starved t"
      by (auto simp: dave_def split: if_splits result.splits)
    from pause_Starved [OF p2] set_all_fields [of 1 s1] qx r1 show ?thesis by simp
  qed
qed

lemma all_first:
  "pause 60000 inp (set_all 1 s) = Returned r inp' t \<Longrightarrow> r \<noteq> 0 \<Longrightarrow>
   all inp s = Returned 1 inp' t"
  by (simp add: all_def)

lemma planes_first:
  "pause 10000 inp (set_x_plane 0 1 (set_all 0 s)) = Returned r inp' t \<Longrightarrow> r \<noteq> 0 \<Longrightarrow>
   planes inp s = Returned 1 inp' t"
  by (simp add: planes_def upt8_Cons)

lemma points_first:
  assumes "pause 1000 inp (set_point 0 0 0 1 (set_all 0 s)) = Returned r inp' t" "r \<noteq> 0"
  shows "points inp s = Returned 1 inp' t"
proof -
  obtain ks where k: "point_order = (0, 0, 0) # ks" using point_order_Cons ..
  show ?thesis unfolding points_def k using assms by simp
qed

lemma dave_first:
  assumes "pause 5000 inp (character_on_y 0 (dave_glyphs ! 0) (set_all 0 s)) = Returned r inp' t"
    "r \<noteq> 0"
  shows "dave inp s = Returned 1 inp' t"
proof -
  obtain ks where k: "glyph_order = (0, 0) # ks" using glyph_order_Cons ..
  have "sweep 5000 (\<lambda>(c, y). character_on_y (of_nat y) (dave_glyphs ! c))
      (\<lambda>(c, y). set_y_plane (of_nat y) 0) glyph_order inp (set_all 0 s) = Returned 1 inp' t"
    unfolding k using assms by simp
  then show ?thesis by (simp add: dave_def)
qed

lemma press2_at:
  assumes "s = dark_cube\<lparr>display := d\<rparr>" "i \<noteq> 0"
  shows "pause i [0xFF, 0xFB] s =
    Returned 1 [] (s\<lparr>elapsed := elapsed s + 101, p41key := False, p42key := True, mode := 0\<rparr>)"
  using assms by (intro pause_press2) (simp_all add: P4_samples dark_cube_simps)

text \<open>
  C2. Each display routine whose first call of \<open>pause\<close> returns non-zero returns 1
  there, with the samples and the state that call left: the frame buffer is the one
  written before that first wait (\<open>set_all 1\<close> for \<open>all\<close>; \<open>set_all 0\<close> and the
  first plane, point or glyph column for \<open>planes\<close>, \<open>points\<close> and \<open>dave\<close>), and
  nothing is written to it afterwards.
\<close>

theorem interrupted_at_first_wait:
  "(pause 60000 inp (set_all 1 s) = Returned r inp' t \<and> r \<noteq> 0 \<longrightarrow>
      all inp s = Returned 1 inp' t \<and> display t = display (set_all 1 s)) \<and>
   (pause 10000 inp (set_x_plane 0 1 (set_all 0 s)) = Returned r inp' t \<and> r \<noteq> 0 \<longrightarrow>
      planes inp s = Returned 1 inp' t \<and>
      display t = display (set_x_plane 0 1 (set_all 0 s))) \<and>
   (pause 1000 inp (set_point 0 0 0 1 (set_all 0 s)) = Returned r inp' t \<and> r \<noteq> 0 \<longrightarrow>
      points inp s = Returned 1 inp' t \<and>
      display t = display (set_point 0 0 0 1 (set_all 0 s))) \<and>
   (pause 5000 inp (character_on_y 0 (dave_glyphs ! 0) (set_all 0 s)) = Returned r inp' t \<and>
      r \<noteq> 0 \<longrightarrow>
      dave inp s = Returned 1 inp' t \<and>
      display t = display (character_on_y 0 (dave_glyphs ! 0) (set_all 0 s)))"
  using pause_Returned [of _ inp _ r inp' t]
  by (auto intro: all_first planes_first points_first dave_first)

theorem interrupted_at_first_wait_witness:
  "(\<exists>t. all [0xFF, 0xFB] dark_cube = Returned 1 [] t \<and>
      display t = display (set_all 1 dark_cube)) \<and>
   (\<exists>t. planes [0xFF, 0xFB] dark_cube = Returned 1 [] t \<and>
      display t = display (set_x_plane 0 1 (set_all 0 dark_cube))) \<and>
   (\<exists>t. points [0xFF, 0xFB] dark_cube = Returned 1 [] t \<and>
      display t = display (set_point 0 0 0 1 (set_all 0 dark_cube))) \<and>
   (\<exists>t. dave [0xFF, 0xFB] dark_cube = Returned 1 [] t \<and>
      display t = display (character_on_y 0 (dave_glyphs ! 0) (set_all 0 dark_cube)))"
proof (intro conjI)
  let ?inp = "[0xFF, 0xFB] :: byte list"
  let ?f = "\<lambda>s :: cube. s\<lparr>elapsed := elapsed s + 101, p41key := False, p42key := True,
      mode := 0\<rparr>"
  have one: "(1 :: int) \<noteq> 0" by simp
  note inst = interrupted_at_first_wait [where inp = ?inp and s = dark_cube and r = 1
      and inp' = "[]"]
  let ?a = "set_all 1 dark_cube"
  have e1: "?a = dark_cube\<lparr>display := display ?a\<rparr>"
    by (rule set_all_only_display)
  have p1: "pause 60000 ?inp ?a = Returned 1 [] (?f ?a)"
    by (rule press2_at [OF e1]) simp
  have "all ?inp dark_cube = Returned 1 [] (?f ?a) \<and> display (?f ?a) = display ?a"
    by (rule inst [of "?f ?a", THEN conjunct1, THEN mp, OF conjI [OF p1 one]])
  then show "\<exists>t. all ?inp dark_cube = Returned 1 [] t \<and> display t = display ?a"
    by (rule exI [of _ "?f ?a"])
  let ?b = "set_x_plane 0 1 (set_all 0 dark_cube)"
  have e2: "?b = dark_cube\<lparr>display := display ?b\<rparr>"
    by (subst set_x_plane_only_display, subst (2) set_all_only_display) simp
  have p2: "pause 10000 ?inp ?b = Returned 1 [] (?f ?b)"
    by (rule press2_at [OF e2]) simp
  have "planes ?inp dark_cube = Returned 1 [] (?f ?b) \<and> display (?f ?b) = display ?b"
    by (rule inst [of "?f ?b", THEN conjunct2, THEN conjunct1, THEN mp, OF conjI [OF p2 one]])
  then show "\<exists>t. planes ?inp dark_cube = Returned 1 [] t \<and> display t = display ?b"
    by (rule exI [of _ "?f ?b"])
  let ?c = "set_point 0 0 0 1 (set_all 0 dark_cube)"
  have e3: "?c = dark_cube\<lparr>display := display ?c\<rparr>"
    by (subst set_point_only_display, subst (2) set_all_only_display) simp
  have p3: "pause 1000 ?inp ?c = Returned 1 [] (?f ?c)"
    by (rule press2_at [OF e3]) simp
  have "points ?inp dark_cube = Returned 1 [] (?f ?c) \<and> display (?f ?c) = display ?c"
    by (rule inst [of "?f ?c", THEN conjunct2, THEN conjunct2, THEN conjunct1, THEN mp, OF conjI [OF p3 one]])
  then show "\<exists>t. points ?inp dark_cube = Returned 1 [] t \<and> display t = display ?c"
    by (rule exI [of _ "?f ?c"])
  let ?d = "character_on_y 0 (dave_glyphs ! 0) (set_all 0 dark_cube)"
  have e4: "?d = dark_cube\<lparr>display := display ?d\<rparr>"
    by (subst character_on_y_only_display, subst (2) set_all_only_display) simp
  have p4: "pause 5000 ?inp ?d = Returned 1 [] (?f ?d)"
    by (rule press2_at [OF e4]) simp
  have "dave ?inp dark_cube = Returned 1 [] (?f ?d) \<and> display (?f ?d) = display ?d"
    by (rule inst [of "?f ?d", THEN conjunct2, THEN conjunct2, THEN conjunct2, THEN mp, OF conjI [OF p4 one]])
  then show "\<exists>t. dave ?inp dark_cube = Returned 1 [] t \<and> display t = display ?d"
    by (rule exI [of _ "?f ?d"])
qed

section \<open>The main loop\<close>

lemma smod_wrap: "(4 + 1) smod (5 :: int) = 0"
  by (simp add: signed_modulo_int_def)

lemma pause_runs_out:
  assumes "i \<noteq> 0" "P4_1 v1" "P4_2 v2" "\<not> pause_flag s"
  shows "pause i [v1, v2] s = Starved (s\<lparr>elapsed := elapsed s + 1, p41key := False\<rparr>)"
proof -
  obtain n where n: "unat i = Suc n" using pause_Suc [OF assms(1)] ..
  show ?thesis using assms(2-)
    by (simp add: pause_def n poll_def button1_def button2_def delay5us_def Let_def)
qed

lemma dave_runs_out:
  assumes "\<not> pause_flag s"
  shows "dave [0xFF, 0xFF] s =
    Starved ((character_on_y 0 (dave_glyphs ! 0) (set_all 0 s))
      \<lparr>elapsed := elapsed s + 1, p41key := False\<rparr>)"
proof -
  let ?p = "character_on_y 0 (dave_glyphs ! 0) (set_all 0 s)"
  obtain ks where k: "glyph_order = (0, 0) # ks" using glyph_order_Cons ..
  have f: "\<not> pause_flag ?p" "elapsed ?p = elapsed s"
    using assms by (simp_all add: character_on_y_fields set_all_fields)
  have "pause 5000 [0xFF, 0xFF] ?p = Starved (?p\<lparr>elapsed := elapsed ?p + 1, p41key := False\<rparr>)"
    using f by (intro pause_runs_out) (simp_all add: P4_samples)
  then have "sweep 5000 (\<lambda>(c, y). character_on_y (of_nat y) (dave_glyphs ! c))
      (\<lambda>(c, y). set_y_plane (of_nat y) 0) glyph_order [0xFF, 0xFF] (set_all 0 s) =
      Starved (?p\<lparr>elapsed := elapsed s + 1, p41key := False\<rparr>)"
    unfolding k using f by simp
  then show ?thesis by (simp add: dave_def)
qed

lemma dave_pressed2:
  assumes "\<not> pause_flag s" "\<not> p42key s"
  shows "dave [0xFF, 0xFB] s =
    Returned 1 [] ((character_on_y 0 (dave_glyphs ! 0) (set_all 0 s))
      \<lparr>elapsed := elapsed s + 101, p41key := False, p42key := True, mode := 0\<rparr>)"
proof -
  let ?p = "character_on_y 0 (dave_glyphs ! 0) (set_all 0 s)"
  have f: "\<not> pause_flag ?p" "\<not> p42key ?p" "elapsed ?p = elapsed s"
    using assms by (simp_all add: character_on_y_fields set_all_fields)
  have "pause 5000 [0xFF, 0xFB] ?p =
      Returned 1 [] (?p\<lparr>elapsed := elapsed ?p + 101, p41key := False, p42key := True, mode := 0\<rparr>)"
    using f by (intro pause_press2) (simp_all add: P4_samples)
  then have "pause 5000 [0xFF, 0xFB] ?p =
      Returned 1 [] (?p\<lparr>elapsed := elapsed s + 101, p41key := False, p42key := True, mode := 0\<rparr>)"
    using f by simp
  then show ?thesis by (rule dave_first) simp
qed

lemma composite_steps:
  "mode s = 4 \<Longrightarrow>
   (dave inp s = Returned r1 inp1 s1 \<and> r1 \<noteq> 0 \<longrightarrow>
      dispatch inp s = Returned () inp1 s1 \<and> mode s1 = 0) \<and>
   (dave inp s = Returned 0 inp1 s1 \<and> points inp1 s1 = Returned r2 inp2 s2 \<and> r2 \<noteq> 0 \<longrightarrow>
      dispatch inp s = Returned () inp2 s2 \<and> mode s2 = 0) \<and>
   (dave inp s = Returned 0 inp1 s1 \<and> points inp1 s1 = Returned 0 inp2 s2 \<and>
    planes inp2 s2 = Returned r3 inp3 s3 \<and> r3 \<noteq> 0 \<longrightarrow>
      dispatch inp s = Returned () inp3 s3 \<and> mode s3 = 0) \<and>
   (dave inp s = Returned 0 inp1 s1 \<and> points inp1 s1 = Returned 0 inp2 s2 \<and>
    planes inp2 s2 = Returned 0 inp3 s3 \<longrightarrow>
      dispatch inp s = dropped (all inp3 s3)) \<and>
   (points a b = Returned c a' b' \<or> planes a b = Returned c a' b' \<or>
    all a b = Returned c a' b' \<longrightarrow> length a' < length a) \<and>
   (dispatch inp s = Returned () inp' s' \<longrightarrow>
      main_loop (Suc n) inp s = main_loop n inp' s')"
proof (intro conjI impI)
  assume m: "mode s = 4"
  {
    assume a: "dave inp s = Returned r1 inp1 s1 \<and> r1 \<noteq> 0"
    with m show "dispatch inp s = Returned () inp1 s1" by (simp add: dispatch_def)
    from a dave_Returned [of inp s r1 inp1 s1] m show "mode s1 = 0"
      by (auto simp: smod_wrap)
  next
    assume a: "dave inp s = Returned 0 inp1 s1 \<and> points inp1 s1 = Returned r2 inp2 s2 \<and> r2 \<noteq> 0"
    with m show "dispatch inp s = Returned () inp2 s2" by (simp add: dispatch_def)
    from a dave_Returned [of inp s 0 inp1 s1] points_Returned [of inp1 s1 r2 inp2 s2] m
    show "mode s2 = 0" by (auto simp: smod_wrap)
  next
    assume a: "dave inp s = Returned 0 inp1 s1 \<and> points inp1 s1 = Returned 0 inp2 s2 \<and>
      planes inp2 s2 = Returned r3 inp3 s3 \<and> r3 \<noteq> 0"
    with m show "dispatch inp s = Returned () inp3 s3" by (simp add: dispatch_def)
    from a dave_Returned [of inp s 0 inp1 s1] points_Returned [of inp1 s1 0 inp2 s2]
      planes_Returned [of inp2 s2 r3 inp3 s3] m
    show "mode s3 = 0" by (auto simp: smod_wrap)
  next
    assume "dave inp s = Returned 0 inp1 s1 \<and> points inp1 s1 = Returned 0 inp2 s2 \<and>
      planes inp2 s2 = Returned 0 inp3 s3"
    with m show "dispatch inp s = dropped (all inp3 s3)" by (simp add: dispatch_def)
  next
    assume "points a b = Returned c a' b' \<or> planes a b = Returned c a' b' \<or>
      all a b = Returned c a' b'"
    with points_Returned [of a b c a' b'] planes_Returned [of a b c a' b']
      all_Returned [of a b c a' b']
    show "length a' < length a" by blast
  next
    assume "dispatch inp s = Returned () inp' s'"
    then show "main_loop (Suc n) inp s = main_loop n inp' s'" by simp
  }
qed


lemmas composite_step1 = composite_steps [THEN conjunct1]
lemmas composite_step2 = composite_steps [THEN conjunct2, THEN conjunct1]
lemmas composite_step3 = composite_steps [THEN conjunct2, THEN conjunct2, THEN conjunct1]
lemmas composite_step4 = composite_steps [THEN conjunct2, THEN conjunct2, THEN conjunct2,
    THEN conjunct1]
lemmas composite_step5 = composite_steps [THEN conjunct2, THEN conjunct2, THEN conjunct2,
    THEN conjunct2, THEN conjunct1]
lemmas composite_step6 = composite_steps [THEN conjunct2, THEN conjunct2, THEN conjunct2,
    THEN conjunct2, THEN conjunct2]

lemma main_loop_one: "main_loop (Suc 0) inp s = dispatch inp s"
  by (cases "dispatch inp s") simp_all

lemma main_loop_starved:
  "dispatch inp s = Starved t \<longrightarrow> main_loop (Suc n) inp s = Starved t"
  by simp

lemma next_pass:
  assumes "dispatch inp s = Returned () inp1 s1 \<and> mode s1 = 0"
  shows "main_loop (Suc (Suc 0)) inp s = dropped (dave inp1 s1)"
proof -
  from assms have "main_loop (Suc (Suc 0)) inp s = main_loop (Suc 0) inp1 s1" by simp
  also have "\<dots> = dispatch inp1 s1" by (rule main_loop_one)
  also have "\<dots> = dropped (dave inp1 s1)" using assms by (simp add: dispatch_def)
  finally show ?thesis .
qed

lemma next_pass1:
  "mode s = 4 \<Longrightarrow> dave inp s = Returned r1 inp1 s1 \<and> r1 \<noteq> 0 \<longrightarrow>
      main_loop (Suc (Suc 0)) inp s = dropped (dave inp1 s1)"
  using composite_step1 [of s inp r1 inp1 s1] next_pass [of inp s inp1 s1] by blast

lemma next_pass2:
  "mode s = 4 \<Longrightarrow>
   dave inp s = Returned 0 inp1 s1 \<and> points inp1 s1 = Returned r2 inp2 s2 \<and> r2 \<noteq> 0 \<longrightarrow>
      main_loop (Suc (Suc 0)) inp s = dropped (dave inp2 s2)"
  using composite_step2 [of s inp inp1 s1 r2 inp2 s2] next_pass [of inp s inp2 s2] by blast

lemma next_pass3:
  "mode s = 4 \<Longrightarrow>
   dave inp s = Returned 0 inp1 s1 \<and> points inp1 s1 = Returned 0 inp2 s2 \<and>
    planes inp2 s2 = Returned r3 inp3 s3 \<and> r3 \<noteq> 0 \<longrightarrow>
      main_loop (Suc (Suc 0)) inp s = dropped (dave inp3 s3)"
  using composite_step3 [of s inp inp1 s1 inp2 s2 r3 inp3 s3] next_pass [of inp s inp3 s3]
  by blast

text \<open>
  C7. In mode 4 one pass of the main loop runs \<open>dave\<close>, \<open>points\<close>, \<open>planes\<close>
  and \<open>all\<close> (the routines of the modes 0, 1, 2, 3) in this order. When one of the
  first three returns non-zero the pass ends with exactly the samples and the state
  that routine left, so no later routine of the sequence ran (each routine that runs
  and returns reads at least one sample); \<open>mode\<close> is then 0. The main loop is
  its passes one after the other: no pass leaves everything as it is, one pass is the
  dispatch, a pass that runs out of samples ends the run, and after a pass the next
  one starts from what it left. So after an interrupted pass in mode 4 the second
  pass reads \<open>mode\<close>, finds 0 and runs \<open>dave\<close> from the samples and the state the
  interrupted routine left.
\<close>

theorem composite_aborts:
  "mode s = 4 \<Longrightarrow>
   (dave inp s = Returned r1 inp1 s1 \<and> r1 \<noteq> 0 \<longrightarrow>
      dispatch inp s = Returned () inp1 s1 \<and> mode s1 = 0) \<and>
   (dave inp s = Returned 0 inp1 s1 \<and> points inp1 s1 = Returned r2 inp2 s2 \<and> r2 \<noteq> 0 \<longrightarrow>
      dispatch inp s = Returned () inp2 s2 \<and> mode s2 = 0) \<and>
   (dave inp s = Returned 0 inp1 s1 \<and> points inp1 s1 = Returned 0 inp2 s2 \<and>
    planes inp2 s2 = Returned r3 inp3 s3 \<and> r3 \<noteq> 0 \<longrightarrow>
      dispatch inp s = Returned () inp3 s3 \<and> mode s3 = 0) \<and>
   (dave inp s = Returned 0 inp1 s1 \<and> points inp1 s1 = Returned 0 inp2 s2 \<and>
    planes inp2 s2 = Returned 0 inp3 s3 \<longrightarrow>
      dispatch inp s = dropped (all inp3 s3)) \<and>
   (points a b = Returned c a' b' \<or> planes a b = Returned c a' b' \<or>
    all a b = Returned c a' b' \<longrightarrow> length a' < length a) \<and>
   (dispatch inp s = Returned () inp' s' \<longrightarrow>
      main_loop (Suc n) inp s = main_loop n inp' s') \<and>
   main_loop 0 inp s = Returned () inp s \<and>
   main_loop (Suc 0) inp s = dispatch inp s \<and>
   (dispatch inp s = Starved t \<longrightarrow> main_loop (Suc n) inp s = Starved t) \<and>
   (dave inp s = Returned r1 inp1 s1 \<and> r1 \<noteq> 0 \<longrightarrow>
      main_loop (Suc (Suc 0)) inp s = dropped (dave inp1 s1)) \<and>
   (dave inp s = Returned 0 inp1 s1 \<and> points inp1 s1 = Returned r2 inp2 s2 \<and> r2 \<noteq> 0 \<longrightarrow>
      main_loop (Suc (Suc 0)) inp s = dropped (dave inp2 s2)) \<and>
   (dave inp s = Returned 0 inp1 s1 \<and> points inp1 s1 = Returned 0 inp2 s2 \<and>
    planes inp2 s2 = Returned r3 inp3 s3 \<and> r3 \<noteq> 0 \<longrightarrow>
      main_loop (Suc (Suc 0)) inp s = dropped (dave inp3 s3))"
  apply (rule conjI, erule composite_step1)
  apply (rule conjI, erule composite_step2)
  apply (rule conjI, erule composite_step3)
  apply (rule conjI, erule composite_step4)
  apply (rule conjI, erule composite_step5)
  apply (rule conjI, erule composite_step6)
  apply (rule conjI, simp)
  apply (rule conjI, rule main_loop_one)
  apply (rule conjI, rule main_loop_starved)
  apply (rule conjI, erule next_pass1)
  apply (rule conjI, erule next_pass2)
  apply (erule next_pass3)
  done

theorem composite_aborts_witness:
  "\<exists>t. dispatch [0xFF, 0xFB] (dark_cube\<lparr>mode := 4\<rparr>) = Returned () [] t \<and> mode t = 0 \<and>
     main_loop (Suc 0) [0xFF, 0xFB] (dark_cube\<lparr>mode := 4\<rparr>) = main_loop 0 [] t \<and>
     main_loop (Suc (Suc 0)) [0xFF, 0xFB] (dark_cube\<lparr>mode := 4\<rparr>) = dropped (dave [] t)"
proof -
  let ?s = "dark_cube\<lparr>mode := 4\<rparr>"
  let ?t = "(character_on_y 0 (dave_glyphs ! 0) (set_all 0 ?s))
      \<lparr>elapsed := elapsed ?s + 101, p41key := False, p42key := True, mode := 0\<rparr>"
  have d: "dave [0xFF, 0xFB] ?s = Returned 1 [] ?t"
    by (rule dave_pressed2) (simp_all add: dark_cube_simps)
  have h: "dave [0xFF, 0xFB] ?s = Returned 1 [] ?t \<and> (1 :: int) \<noteq> 0" using d by simp
  have m: "mode ?s = 4" by simp
  note T = composite_aborts [OF m, where inp = "[0xFF, 0xFB]" and ?r1.0 = 1 and ?inp1.0 = "[]"
      and ?s1.0 = ?t and inp' = "[]" and s' = ?t and n = 0]
  note A = T [THEN conjunct1, THEN mp, OF h]
  note B = T [THEN conjunct2, THEN conjunct2, THEN conjunct2, THEN conjunct2, THEN conjunct2, THEN conjunct1, THEN mp, OF A [THEN conjunct1]]
  note C = T [THEN conjunct2, THEN conjunct2, THEN conjunct2, THEN conjunct2, THEN conjunct2, THEN conjunct2, THEN conjunct2, THEN conjunct2, THEN conjunct2, THEN conjunct1, THEN mp, OF h]
  have "dispatch [0xFF, 0xFB] ?s = Returned () [] ?t \<and> mode ?t = 0 \<and>
     main_loop (Suc 0) [0xFF, 0xFB] ?s = main_loop 0 [] ?t \<and>
     main_loop (Suc (Suc 0)) [0xFF, 0xFB] ?s = dropped (dave [] ?t)"
    by (rule conjI [OF A [THEN conjunct1] conjI [OF A [THEN conjunct2] conjI [OF B C]]])
  then show ?thesis by (rule exI [of _ ?t])
qed

section \<open>The timer interrupt and the owners of the state\<close>

lemma load_latches_eq:
  "load_latches (out, s) =
     (out @ concat (map (\<lambda>i. [P2 (push_bit i 1), P0 (fetch s (unat (layer s)) i)]) [0..<8]),
      s\<lparr>elapsed := elapsed s + 48\<rparr>)"
  by (simp add: load_latches_def delay_eq upt_conv_Cons fetch_def)

lemma timer_isr_eq:
  "timer_isr s =
     ([P1 255] @ concat (map (\<lambda>i. [P2 (push_bit i 1), P0 (fetch s (unat (layer s)) i)]) [0..<8])
        @ [P1 (NOT (push_bit (unat (layer s)) 1)), TH0 0xc0, TL0 0],
      s\<lparr>elapsed := elapsed s + 48, layer := (if layer s + 1 > 7 then 0 else layer s + 1)\<rparr>)"
  by (simp add: timer_isr_def load_latches_eq)

lemma layer_next: "layer s < 8 \<Longrightarrow>
  unat (if layer s + 1 > 7 then 0 else layer s + 1) = (unat (layer s) + 1) mod 8"
  apply (auto simp: word_less_nat_alt word_le_nat_alt unat_word_ariths not_less not_le unat_eq_0)
  apply arith
  done

lemma layer_bound: "(if (l :: byte) + 1 > 7 then 0 else l + 1) < 8"
  by (auto simp: word_less_nat_alt word_le_nat_alt not_less)

lemma bit_select: "l < 8 \<Longrightarrow> j < 8 \<Longrightarrow> bit (NOT (push_bit l 1) :: byte) j \<longleftrightarrow> j \<noteq> l"
  by (auto simp: bit_not_iff bit_push_bit_iff bit_1_iff bit_exp_iff possible_bit_word)


lemma timer_isr_fields:
  "mode (snd (timer_isr s)) = mode s" "display (snd (timer_isr s)) = display s"
  "pause_flag (snd (timer_isr s)) = pause_flag s" "p41key (snd (timer_isr s)) = p41key s"
  "p42key (snd (timer_isr s)) = p42key s" "p43key (snd (timer_isr s)) = p43key s"
  by (simp_all add: timer_isr_eq)

lemma bit_255: "j < 8 \<Longrightarrow> bit (255 :: byte) j"
proof -
  have "(255 :: byte) = - 1" by simp
  then show "j < 8 \<Longrightarrow> bit (255 :: byte) j" by (simp only: bit_minus_1_iff possible_bit_word) simp
qed

lemma timer_isr_P1:
  "P1 v \<in> set (fst (timer_isr s)) \<Longrightarrow> v = 255 \<or> v = NOT (push_bit (unat (layer s)) 1)"
  by (auto simp: timer_isr_eq upt_conv_Cons)

lemma dropped_cases:
  "dropped R = Returned u inp' t \<Longrightarrow> \<exists>r. R = Returned r inp' t"
  "dropped R = Starved t \<Longrightarrow> R = Starved t"
  by (cases R; simp)+

lemma dave_ok:
  "dave inp s = Returned r inp' t \<or> dave inp s = Starved t \<Longrightarrow>
   layer t = layer s \<and> (mode t = mode s \<or> mode t = 0 \<or> mode t = (mode s + 1) smod 5)"
  using dave_Returned [of inp s r inp' t] dave_Starved [of inp s t] by auto

lemma points_ok:
  "points inp s = Returned r inp' t \<or> points inp s = Starved t \<Longrightarrow>
   layer t = layer s \<and> (mode t = mode s \<or> mode t = 0 \<or> mode t = (mode s + 1) smod 5)"
  using points_Returned [of inp s r inp' t] points_Starved [of inp s t] by auto

lemma planes_ok:
  "planes inp s = Returned r inp' t \<or> planes inp s = Starved t \<Longrightarrow>
   layer t = layer s \<and> (mode t = mode s \<or> mode t = 0 \<or> mode t = (mode s + 1) smod 5)"
  using planes_Returned [of inp s r inp' t] planes_Starved [of inp s t] by auto

lemma all_ok:
  "all inp s = Returned r inp' t \<or> all inp s = Starved t \<Longrightarrow>
   layer t = layer s \<and> (mode t = mode s \<or> mode t = 0 \<or> mode t = (mode s + 1) smod 5)"
  using all_Returned [of inp s r inp' t] all_Starved [of inp s t] by auto

lemma dropped_ok:
  assumes "\<And>r. R = Returned r inp' t \<or> R = Starved t \<Longrightarrow> Q"
    and "dropped R = Returned u inp' t \<or> dropped R = Starved t"
  shows Q
  using assms by (cases R) auto

lemma composite_ok:
  assumes "dave inp s = Returned 0 inp1 s1"
    and "points inp1 s1 = Returned 0 inp2 s2"
    and "planes inp2 s2 = Returned 0 inp3 s3"
    and "all inp3 s3 = Returned r inp' t \<or> all inp3 s3 = Starved t"
  shows "layer t = layer s \<and> (mode t = mode s \<or> mode t = 0 \<or> mode t = (mode s + 1) smod 5)"
  using dave_Returned [OF assms(1)] points_Returned [OF assms(2)] planes_Returned [OF assms(3)]
    all_ok [OF assms(4)] by auto


lemma dispatch_ok:
  assumes "dispatch inp s = Returned u inp' t \<or> dispatch inp s = Starved t"
  shows "layer t = layer s \<and> (mode t = mode s \<or> mode t = 0 \<or> mode t = (mode s + 1) smod 5)"
proof -
  consider "mode s = 0" | "mode s = 1" | "mode s = 2" | "mode s = 3" | "mode s = 4"
    | "mode s \<noteq> 0 \<and> mode s \<noteq> 1 \<and> mode s \<noteq> 2 \<and> mode s \<noteq> 3 \<and> mode s \<noteq> 4"
    by blast
  then show ?thesis
  proof cases
    case 1
    with assms have "dropped (dave inp s) = Returned u inp' t \<or> dropped (dave inp s) = Starved t"
      by (simp add: dispatch_def)
    then show ?thesis by (rule dropped_ok [rotated]) (rule dave_ok)
  next
    case 2
    with assms have "dropped (points inp s) = Returned u inp' t \<or>
        dropped (points inp s) = Starved t"
      by (simp add: dispatch_def)
    then show ?thesis by (rule dropped_ok [rotated]) (rule points_ok)
  next
    case 3
    with assms have "dropped (planes inp s) = Returned u inp' t \<or>
        dropped (planes inp s) = Starved t"
      by (simp add: dispatch_def)
    then show ?thesis by (rule dropped_ok [rotated]) (rule planes_ok)
  next
    case 4
    with assms have "dropped (all inp s) = Returned u inp' t \<or> dropped (all inp s) = Starved t"
      by (simp add: dispatch_def)
    then show ?thesis by (rule dropped_ok [rotated]) (rule all_ok)
  next
    case 5
    show ?thesis
    proof (cases "dave inp s")
      case (Starved t1)
      with 5 assms have "dave inp s = Starved t" by (simp add: dispatch_def)
      then show ?thesis using dave_ok [of inp s _ _ t] by simp
    next
      case d: (Returned r1 inp1 s1)
      show ?thesis
      proof (cases "r1 = 0")
        case False
        with 5 d assms have "dave inp s = Returned r1 inp' t" by (simp add: dispatch_def)
        then show ?thesis using dave_ok [of inp s r1 inp' t] by simp
      next
        case r1: True
        note qd = dave_Returned [OF d [unfolded r1]]
        show ?thesis
        proof (cases "points inp1 s1")
          case (Starved t2)
          with 5 d r1 assms have "points inp1 s1 = Starved t" by (simp add: dispatch_def)
          from points_Starved [OF this] qd show ?thesis by simp
        next
          case p: (Returned r2 inp2 s2)
          show ?thesis
          proof (cases "r2 = 0")
            case False
            with 5 d r1 p assms have "points inp1 s1 = Returned r2 inp' t"
              by (simp add: dispatch_def)
            from points_Returned [OF this] qd show ?thesis by auto
          next
            case r2: True
            note qp = points_Returned [OF p [unfolded r2]]
            show ?thesis
            proof (cases "planes inp2 s2")
              case (Starved t3)
              with 5 d r1 p r2 assms have "planes inp2 s2 = Starved t"
                by (simp add: dispatch_def)
              from planes_Starved [OF this] qd qp show ?thesis by simp
            next
              case l: (Returned r3 inp3 s3)
              show ?thesis
              proof (cases "r3 = 0")
                case False
                with 5 d r1 p r2 l assms have "planes inp2 s2 = Returned r3 inp' t"
                  by (simp add: dispatch_def)
                from planes_Returned [OF this] qd qp show ?thesis by auto
              next
                case r3: True
                with 5 d r1 p r2 l assms have "dropped (all inp3 s3) = Returned u inp' t \<or>
                    dropped (all inp3 s3) = Starved t"
                  by (simp add: dispatch_def)
                then show ?thesis
                  by (rule dropped_ok [rotated])
                    (rule composite_ok [OF d [unfolded r1] p [unfolded r2] l [unfolded r3]])
              qed
            qed
          qed
        qed
      qed
    qed
  next
    case 6
    with assms show ?thesis by (simp add: dispatch_def)
  qed
qed


lemma smod5_range: "0 \<le> m \<Longrightarrow> m < 5 \<Longrightarrow> 0 \<le> (m + 1) smod 5 \<and> (m + 1) smod (5 :: int) < 5"
  by (simp add: signed_modulo_int_def)

lemma main_loop_ok:
  "main_loop n inp s = Returned u inp' t \<or> main_loop n inp s = Starved t \<Longrightarrow>
   layer t = layer s \<and> (0 \<le> mode s \<and> mode s < 5 \<longrightarrow> 0 \<le> mode t \<and> mode t < 5)"
proof (induction n arbitrary: inp s)
  case 0
  then show ?case by simp
next
  case (Suc n)
  show ?case
  proof (cases "dispatch inp s")
    case (Starved t1)
    with Suc.prems have "dispatch inp s = Starved t" by simp
    from dispatch_ok [of inp s _ _ t] this smod5_range [of "mode s"] show ?thesis by auto
  next
    case (Returned u1 inp1 s1)
    with Suc.prems have "main_loop n inp1 s1 = Returned u inp' t \<or>
        main_loop n inp1 s1 = Starved t" by simp
    from Suc.IH [OF this] dispatch_ok [of inp s u1 inp1 s1] Returned smod5_range [of "mode s"]
    show ?thesis by auto
  qed
qed

lemma pause_press3:
  assumes "i \<noteq> 0" "P4_1 v1" "P4_2 v2" "\<not> P4_3 v3" "\<not> pause_flag s" "\<not> p43key s"
  shows "pause i (v1 # v2 # v3 # rest) s =
    Returned 1 rest (s\<lparr>elapsed := elapsed s + 101, p41key := False, p43key := True,
      mode := (mode s + 1) smod 5\<rparr>)"
proof -
  obtain n where n: "unat i = Suc n" using pause_Suc [OF assms(1)] ..
  show ?thesis using assms(2-)
    by (simp add: pause_def n poll_def button1_def button2_def button3_def delay_eq
        delay5us_def Let_def)
qed

lemma isr_trace:
  "fst (timer_isr s) =
     P1 255 # concat (map (\<lambda>i. [P2 (push_bit i 1), P0 (fetch s (unat (layer s)) i)]) [0..<8])
       @ [P1 (NOT (push_bit (unat (layer s)) 1)), TH0 0xc0, TL0 0]"
  by (simp add: timer_isr_eq)

lemma isr_select:
  "layer s < 8 \<Longrightarrow>
   \<forall>j<8. bit (NOT (push_bit (unat (layer s)) 1) :: byte) j \<longleftrightarrow> j \<noteq> unat (layer s)"
  using bit_select [of "unat (layer s)"] by (auto simp: word_less_nat_alt)

lemma isr_one_live:
  "\<forall>v. P1 v \<in> set (fst (timer_isr s)) \<longrightarrow> (\<forall>i<8. \<forall>j<8. \<not> bit v i \<and> \<not> bit v j \<longrightarrow> i = j)"
proof (intro allI impI)
  fix v i j
  assume v: "P1 v \<in> set (fst (timer_isr s))" and i: "i < 8" and j: "j < 8"
    and b: "\<not> bit v i \<and> \<not> bit v j"
  from timer_isr_P1 [OF v] show "i = j"
  proof
    assume "v = 255"
    with b i bit_255 [of i] show ?thesis by simp
  next
    assume n: "v = NOT (push_bit (unat (layer s)) 1)"
    show ?thesis
    proof (cases "unat (layer s) < 8")
      case True
      from b have "i = unat (layer s)" "j = unat (layer s)"
        unfolding n using bit_select [OF True i] bit_select [OF True j] by blast+
      then show ?thesis by simp
    next
      case False
      with b n i show ?thesis
        by (auto simp: bit_not_iff bit_push_bit_iff bit_1_iff bit_exp_iff possible_bit_word)
    qed
  qed
qed

lemma isr_next:
  "layer s < 8 \<Longrightarrow> unat (layer (snd (timer_isr s))) = (unat (layer s) + 1) mod 8"
  using layer_next [of s] by (simp add: timer_isr_eq)

lemma isr_bound: "layer (snd (timer_isr s)) < 8"
  using layer_bound [of "layer s"] by (simp add: timer_isr_eq)

lemma pause_layer:
  "pause i inp s = Returned r inp' t \<or> pause i inp s = Starved t \<longrightarrow> layer t = layer s"
  using pause_Returned [of i inp s r inp' t] pause_Starved [of i inp s t] by auto

lemma dave_layer:
  "dave inp s = Returned r inp' t \<or> dave inp s = Starved t \<longrightarrow> layer t = layer s"
  using dave_ok [of inp s r inp' t] by blast

lemma points_layer:
  "points inp s = Returned r inp' t \<or> points inp s = Starved t \<longrightarrow> layer t = layer s"
  using points_ok [of inp s r inp' t] by blast

lemma planes_layer:
  "planes inp s = Returned r inp' t \<or> planes inp s = Starved t \<longrightarrow> layer t = layer s"
  using planes_ok [of inp s r inp' t] by blast

lemma all_layer:
  "all inp s = Returned r inp' t \<or> all inp s = Starved t \<longrightarrow> layer t = layer s"
  using all_ok [of inp s r inp' t] by blast

lemma main_loop_layer:
  "main_loop n inp s = Returned u inp' t \<or> main_loop n inp s = Starved t \<longrightarrow> layer t = layer s"
  using main_loop_ok [of n inp s u inp' t] by blast

lemma primitives_layer:
  "layer (set_all b s) = layer s \<and> layer (set_x_plane x b s) = layer s \<and>
   layer (set_y_plane y b s) = layer s \<and> layer (set_z_plane z b s) = layer s \<and>
   layer (set_point x y z b s) = layer s \<and> layer (character_on_y y c s) = layer s \<and>
   layer (delay k s) = layer s"
  by (simp add: set_all_fields set_x_plane_fields set_y_plane_fields set_z_plane_fields
      set_point_fields character_on_y_fields delay_eq)

text \<open>
  C3. One run of the timer handler, the layer index being in 0..7, writes 255 to P1
  (every layer off), then for each latch 0..7 its select bit to P2 and the byte of the
  current layer to P0, then to P1 the byte whose only 0 bit is the bit of the current
  layer, then reloads the timer. No value it writes to P1 has more than one 0 bit,
  so at most one layer is on. The index moves to the next layer, 7 to 0, stays
  below 8, and starts at 0. No other routine changes it: not \<open>pause\<close>, not the
  display routines, not the main loop, not the display primitives or the delay.
\<close>

theorem timer_isr_scan:
  assumes "layer s < 8"
  shows "fst (timer_isr s) =
     P1 255 # concat (map (\<lambda>i. [P2 (push_bit i 1), P0 (fetch s (unat (layer s)) i)]) [0..<8])
       @ [P1 (NOT (push_bit (unat (layer s)) 1)), TH0 0xc0, TL0 0] \<and>
   (\<forall>j<8. bit (NOT (push_bit (unat (layer s)) 1) :: byte) j \<longleftrightarrow> j \<noteq> unat (layer s)) \<and>
   (\<forall>v. P1 v \<in> set (fst (timer_isr s)) \<longrightarrow>
      (\<forall>i<8. \<forall>j<8. \<not> bit v i \<and> \<not> bit v j \<longrightarrow> i = j)) \<and>
   unat (layer (snd (timer_isr s))) = (unat (layer s) + 1) mod 8 \<and>
   layer (snd (timer_isr s)) < 8 \<and>
   layer (init_cube d) = 0 \<and>
   (pause i inp s = Returned r inp' t \<or> pause i inp s = Starved t \<longrightarrow> layer t = layer s) \<and>
   (dave inp s = Returned r inp' t \<or> dave inp s = Starved t \<longrightarrow> layer t = layer s) \<and>
   (points inp s = Returned r inp' t \<or> points inp s = Starved t \<longrightarrow> layer t = layer s) \<and>
   (planes inp s = Returned r inp' t \<or> planes inp s = Starved t \<longrightarrow> layer t = layer s) \<and>
   (all inp s = Returned r inp' t \<or> all inp s = Starved t \<longrightarrow> layer t = layer s) \<and>
   (main_loop n inp s = Returned u inp' t \<or> main_loop n inp s = Starved t \<longrightarrow>
      layer t = layer s) \<and>
   (layer (set_all b s) = layer s \<and> layer (set_x_plane x b s) = layer s \<and>
    layer (set_y_plane y b s) = layer s \<and> layer (set_z_plane z b s) = layer s \<and>
    layer (set_point x y z b s) = layer s \<and> layer (character_on_y y c s) = layer s \<and>
    layer (delay k s) = layer s)"
  apply (rule conjI, rule isr_trace)
  apply (rule conjI, rule isr_select [OF assms])
  apply (rule conjI, rule isr_one_live)
  apply (rule conjI, rule isr_next [OF assms])
  apply (rule conjI, rule isr_bound)
  apply (rule conjI, simp add: init_cube_def)
  apply (rule conjI, rule pause_layer)
  apply (rule conjI, rule dave_layer)
  apply (rule conjI, rule points_layer)
  apply (rule conjI, rule planes_layer)
  apply (rule conjI, rule all_layer)
  apply (rule conjI, rule main_loop_layer)
  apply (rule primitives_layer)
  done

theorem timer_isr_scan_witness:
  "fst (timer_isr (dark_cube\<lparr>layer := 7\<rparr>)) =
     [P1 255, P2 1, P0 255, P2 2, P0 255, P2 4, P0 255, P2 8, P0 255, P2 16, P0 255,
      P2 32, P0 255, P2 64, P0 255, P2 128, P0 255, P1 127, TH0 192, TL0 0] \<and>
   unat (layer (snd (timer_isr (dark_cube\<lparr>layer := 7\<rparr>)))) = 0 \<and>
   layer (dark_cube\<lparr>elapsed := 1\<rparr>) = layer dark_cube"
proof (intro conjI)
  have h: "layer (dark_cube\<lparr>layer := 7\<rparr>) < 8" by simp
  note T = timer_isr_scan [OF h]
  have n: "NOT (128 :: byte) = 127" by simp
  from T [THEN conjunct1]
  show "fst (timer_isr (dark_cube\<lparr>layer := 7\<rparr>)) =
     [P1 255, P2 1, P0 255, P2 2, P0 255, P2 4, P0 255, P2 8, P0 255, P2 16, P0 255,
      P2 32, P0 255, P2 64, P0 255, P2 128, P0 255, P1 127, TH0 192, TL0 0]"
    by (simp add: upt_conv_Cons fetch_def dark_cube_simps)
  from T [THEN conjunct2, THEN conjunct2, THEN conjunct2, THEN conjunct1]
  show "unat (layer (snd (timer_isr (dark_cube\<lparr>layer := 7\<rparr>)))) = 0" by simp
  have g: "layer dark_cube < 8" by (simp add: dark_cube_simps)
  have p: "pause 2 [0xFF, 0xFF] dark_cube = Returned 0 [] (dark_cube\<lparr>elapsed := 1\<rparr>) \<or>
      pause 2 [0xFF, 0xFF] dark_cube = Starved (dark_cube\<lparr>elapsed := 1\<rparr>)"
    using starved_run by simp
  show "layer (dark_cube\<lparr>elapsed := 1\<rparr>) = layer dark_cube"
    by (rule timer_isr_scan [OF g, where i = 2 and inp = "[0xFF, 0xFF]" and r = 0
          and inp' = "[]" and t = "dark_cube\<lparr>elapsed := 1\<rparr>",
          THEN conjunct2, THEN conjunct2, THEN conjunct2, THEN conjunct2, THEN conjunct2,
          THEN conjunct2, THEN conjunct1, THEN mp, OF p])
qed

section \<open>The writers of the mode\<close>

lemma button3_writes:
  "\<not> P4_3 v \<and> \<not> p43key s \<longrightarrow>
     fst (button3 v s) \<and> mode (snd (button3 v s)) = (mode s + 1) smod 5 \<and>
     (mode s = 4 \<longrightarrow> mode (snd (button3 v s)) = 0)"
  by (simp add: button3_def delay_eq smod_wrap)

lemma button2_writes:
  "\<not> P4_2 v \<and> \<not> p42key s \<longrightarrow> fst (button2 v s) \<and> mode (snd (button2 v s)) = 0"
  by (simp add: button2_def delay_eq)

lemma button3_quiet: "\<not> fst (button3 v s) \<longrightarrow> mode (snd (button3 v s)) = mode s"
  by (simp add: button3_def delay_eq)

lemma button2_quiet: "\<not> fst (button2 v s) \<longrightarrow> mode (snd (button2 v s)) = mode s"
  by (simp add: button2_def delay_eq)

lemma pause_advance:
  "i \<noteq> 0 \<and> \<not> pause_flag s \<and> P4_1 v1 \<and> P4_2 v2 \<and> \<not> P4_3 v \<and> \<not> p43key s \<longrightarrow>
     (\<exists>t. pause i (v1 # v2 # v # rest) s = Returned 1 rest t \<and>
        mode t = (mode s + 1) smod 5)"
proof
  assume a: "i \<noteq> 0 \<and> \<not> pause_flag s \<and> P4_1 v1 \<and> P4_2 v2 \<and> \<not> P4_3 v \<and> \<not> p43key s"
  let ?t = "s\<lparr>elapsed := elapsed s + 101, p41key := False, p43key := True,
      mode := (mode s + 1) smod 5\<rparr>"
  from a have "pause i (v1 # v2 # v # rest) s = Returned 1 rest ?t"
    by (intro pause_press3) simp_all
  then have "pause i (v1 # v2 # v # rest) s = Returned 1 rest ?t \<and> mode ?t = (mode s + 1) smod 5"
    by simp
  then show "\<exists>t. pause i (v1 # v2 # v # rest) s = Returned 1 rest t \<and>
        mode t = (mode s + 1) smod 5"
    by (rule exI [of _ ?t])
qed

lemma pause_reset:
  "i \<noteq> 0 \<and> \<not> pause_flag s \<and> P4_1 v1 \<and> \<not> P4_2 v \<and> \<not> p42key s \<longrightarrow>
     (\<exists>t. pause i (v1 # v # rest) s = Returned 1 rest t \<and> mode t = 0)"
proof
  assume a: "i \<noteq> 0 \<and> \<not> pause_flag s \<and> P4_1 v1 \<and> \<not> P4_2 v \<and> \<not> p42key s"
  let ?t = "s\<lparr>elapsed := elapsed s + 101, p41key := False, p42key := True, mode := 0\<rparr>"
  from a have "pause i (v1 # v # rest) s = Returned 1 rest ?t"
    by (intro pause_press2) simp_all
  then have "pause i (v1 # v # rest) s = Returned 1 rest ?t \<and> mode ?t = 0" by simp
  then show "\<exists>t. pause i (v1 # v # rest) s = Returned 1 rest t \<and> mode t = 0"
    by (rule exI [of _ ?t])
qed

lemma pause_keeps_mode:
  "pause i inp s = Returned 0 inp' t \<or> pause i inp s = Starved t \<longrightarrow> mode t = mode s"
  using pause_Returned [of i inp s 0 inp' t] pause_Starved [of i inp s t] by auto

lemma pause_changes_mode:
  "pause i inp s = Returned 1 inp' t \<longrightarrow> mode t = 0 \<or> mode t = (mode s + 1) smod 5"
  using pause_Returned [of i inp s 1 inp' t] by auto

lemma others_keep_mode:
  "mode (button1 v s) = mode s \<and> mode (snd (timer_isr s)) = mode s \<and>
   mode (delay k s) = mode s \<and> mode (set_all b s) = mode s \<and>
   mode (set_x_plane x b s) = mode s \<and> mode (set_y_plane y b s) = mode s \<and>
   mode (set_z_plane z b s) = mode s \<and> mode (set_point x y z b s) = mode s \<and>
   mode (character_on_y y c s) = mode s"
  by (simp add: button1_frame timer_isr_fields set_all_fields set_x_plane_fields
      set_y_plane_fields set_z_plane_fields set_point_fields character_on_y_fields delay_eq)

lemma dispatch_mode:
  "dispatch inp s = Returned u inp' t \<or> dispatch inp s = Starved t \<longrightarrow>
     mode t = mode s \<or> mode t = 0 \<or> mode t = (mode s + 1) smod 5"
  using dispatch_ok [of inp s u inp' t] by blast

lemma main_loop_mode:
  "0 \<le> mode s \<and> mode s < 5 \<and>
   (main_loop n inp s = Returned u inp' t \<or> main_loop n inp s = Starved t) \<longrightarrow>
     0 \<le> mode t \<and> mode t < 5"
  using main_loop_ok [of n inp s u inp' t] by blast

lemma poll_suffix: "poll inp s = Returned f inp' t \<Longrightarrow> \<exists>pre. inp = pre @ inp'"
proof (cases f)
  case True
  assume "poll inp s = Returned f inp' t"
  with True have "poll inp s = Returned True inp' t" by simp
  from poll_fired [OF this] obtain pre v where "inp = (pre @ [v]) @ inp'" by auto
  then show ?thesis by (rule exI)
next
  case False
  assume "poll inp s = Returned f inp' t"
  with False have "poll inp s = Returned False inp' t" by simp
  from poll_quiet [OF this] obtain pre v2 v3 where "inp = (pre @ [v2, v3]) @ inp'" by auto
  then show ?thesis by (rule exI)
qed

lemma pause_loop_suffix:
  "pause_loop n inp s = Returned r inp' t \<Longrightarrow> \<exists>pre. inp = pre @ inp'"
proof (induction n arbitrary: inp s)
  case 0
  then show ?case by simp
next
  case (Suc n)
  from Suc.prems obtain f inp1 s1 where p: "poll inp s = Returned f inp1 s1"
    by (cases "poll inp s") auto
  from poll_suffix [OF p] obtain pre1 where q: "inp = pre1 @ inp1" ..
  show ?case
  proof (cases f)
    case True
    with p Suc.prems q have "inp = pre1 @ inp'" by simp
    then show ?thesis by (rule exI)
  next
    case False
    with p Suc.prems have "pause_loop n inp1 s1 = Returned r inp' t" by simp
    from Suc.IH [OF this] obtain pre where "inp1 = pre @ inp'" ..
    with q have "inp = (pre1 @ pre) @ inp'" by simp
    then show ?thesis by (rule exI)
  qed
qed

lemma by_button_prefix:
  "by_button inp1 inp' s1 t \<Longrightarrow> mode s1 = mode s \<Longrightarrow> by_button (pre @ inp1) inp' s t"
proof -
  assume "by_button inp1 inp' s1 t" and m: "mode s1 = mode s"
  then obtain p v where "inp1 = p @ v # inp'"
    "(\<not> P4_2 v \<and> mode t = 0) \<or> (\<not> P4_3 v \<and> mode t = (mode s1 + 1) smod 5)"
    unfolding by_button_def by blast
  with m have "pre @ inp1 = (pre @ p) @ v # inp' \<and>
    ((\<not> P4_2 v \<and> mode t = 0) \<or> (\<not> P4_3 v \<and> mode t = (mode s + 1) smod 5))" by simp
  then show ?thesis unfolding by_button_def by blast
qed

lemma pause_trace:
  assumes "pause i inp s = Returned r inp' t"
  shows "(\<exists>pre. inp = pre @ inp') \<and> (r \<noteq> 0 \<longrightarrow> by_button inp inp' s t)"
proof -
  from assms have l: "pause_loop (unat i) inp s = Returned r inp' t" by (simp add: pause_def)
  have "r \<noteq> 0 \<longrightarrow> by_button inp inp' s t"
  proof
    assume "r \<noteq> 0"
    with pause_loop_Returned [OF l] have "r = 1" by simp
    with l have "pause_loop (unat i) inp s = Returned 1 inp' t" by simp
    from pause_loop_fired [OF this] show "by_button inp inp' s t"
      unfolding by_button_def by blast
  qed
  with pause_loop_suffix [OF l] show ?thesis by simp
qed

lemma sweep_trace:
  assumes on: "\<And>k t. on k t = t\<lparr>display := display (on k t)\<rparr>"
    and off: "\<And>k t. off k t = t\<lparr>display := display (off k t)\<rparr>"
  shows "sweep i on off ks inp s = Returned r inp' t \<Longrightarrow>
    (\<exists>pre. inp = pre @ inp') \<and> (r \<noteq> 0 \<longrightarrow> by_button inp inp' s t)"
proof (induction ks arbitrary: inp s)
  case Nil
  then show ?case by simp
next
  case (Cons k ks)
  from Cons.prems obtain r1 inp1 s1 where p: "pause i inp (on k s) = Returned r1 inp1 s1"
    by (cases "pause i inp (on k s)") auto
  note q = pause_Returned [OF p] and tr = pause_trace [OF p]
  have m: "mode (on k s) = mode s"
    using only_display_fields [OF on [of k s]] by simp
  from tr obtain pre1 where i1: "inp = pre1 @ inp1" by blast
  show ?case
  proof (cases "r1 = 0")
    case False
    with p Cons.prems have e: "inp' = inp1" "t = s1" by simp_all
    from tr False have "by_button inp inp1 (on k s) s1" by simp
    then have "by_button ([] @ inp) inp1 s s1" using m by (simp add: by_button_def)
    with e i1 show ?thesis by auto
  next
    case True
    with p Cons.prems have l: "sweep i on off ks inp1 (off k s1) = Returned r inp' t" by simp
    have n: "mode (off k s1) = mode s"
      using only_display_fields [OF off [of k s1]] q True m by simp
    from Cons.IH [OF l] obtain pre where i2: "inp1 = pre @ inp'"
      and b: "r \<noteq> 0 \<longrightarrow> by_button inp1 inp' (off k s1) t" by blast
    from i1 i2 have "inp = (pre1 @ pre) @ inp'" by simp
    then have "\<exists>pre. inp = pre @ inp'" by (rule exI)
    moreover have "r \<noteq> 0 \<longrightarrow> by_button inp inp' s t"
      using b by_button_prefix [OF _ n, of inp1 inp' t pre1] i1 by blast
    ultimately show ?thesis by simp
  qed
qed


lemma by_button_mode:
  "mode s1 = mode s \<Longrightarrow> by_button inp inp' s1 t = by_button inp inp' s t"
  by (simp add: by_button_def)

lemma trace_seq:
  assumes "\<exists>pre. inp = pre @ inp1" "mode s1 = mode s"
    and "(\<exists>pre. inp1 = pre @ inp') \<and> (r \<noteq> 0 \<longrightarrow> by_button inp1 inp' s1 t)"
  shows "(\<exists>pre. inp = pre @ inp') \<and> (r \<noteq> (0 :: int) \<longrightarrow> by_button inp inp' s t)"
proof -
  from assms(1) obtain pre1 where i1: "inp = pre1 @ inp1" ..
  from assms(3) obtain pre where i2: "inp1 = pre @ inp'" by blast
  from i1 i2 have "inp = (pre1 @ pre) @ inp'" by simp
  then have "\<exists>pre. inp = pre @ inp'" by (rule exI)
  moreover have "r \<noteq> 0 \<longrightarrow> by_button inp inp' s t"
    using assms(3) by_button_prefix [OF _ assms(2), of inp1 inp' t pre1] i1 by blast
  ultimately show ?thesis by simp
qed

lemma all_trace:
  assumes "all inp s = Returned r inp' t"
  shows "(\<exists>pre. inp = pre @ inp') \<and> (r \<noteq> 0 \<longrightarrow> by_button inp inp' s t)"
proof -
  from assms obtain r1 inp1 s1 where p: "pause 60000 inp (set_all 1 s) = Returned r1 inp1 s1"
    by (cases "pause 60000 inp (set_all 1 s)") (auto simp: all_def)
  note q = pause_Returned [OF p] and tr = pause_trace [OF p]
  have m: "mode (set_all 1 s) = mode s" by (rule set_all_fields)
  show ?thesis
  proof (cases "r1 = 0")
    case False
    with p assms have "r = 1" "inp' = inp1" "t = s1" by (simp_all add: all_def)
    with tr False by_button_mode [OF m] show ?thesis by simp
  next
    case True
    with p assms obtain r2 where p2: "pause 60000 inp1 (set_all 0 s1) = Returned r2 inp' t"
      and r: "r = (if r2 \<noteq> 0 then 1 else 0)"
      by (cases "pause 60000 inp1 (set_all 0 s1)") (auto simp: all_def split: if_splits)
    have n: "mode (set_all 0 s1) = mode s"
      using set_all_fields(1) [of 0 s1] q True m by simp
    have "(\<exists>pre. inp = pre @ inp') \<and> (r2 \<noteq> 0 \<longrightarrow> by_button inp inp' s t)"
      by (rule trace_seq [OF tr [THEN conjunct1] n pause_trace [OF p2]])
    with r show ?thesis by simp
  qed
qed

lemma points_trace:
  assumes "points inp s = Returned r inp' t"
  shows "(\<exists>pre. inp = pre @ inp') \<and> (r \<noteq> 0 \<longrightarrow> by_button inp inp' s t)"
  using sweep_trace [OF points_on points_on assms [unfolded points_def]]
    by_button_mode [OF set_all_fields(1), of inp inp' 0 s t]
  by simp

lemmas sweep_x_trace = sweep_trace [where on = "\<lambda>x. set_x_plane (of_nat x) 1"
    and off = "\<lambda>x. set_x_plane (of_nat x) 0", OF set_x_plane_only_display set_x_plane_only_display]
lemmas sweep_y_trace = sweep_trace [where on = "\<lambda>y. set_y_plane (of_nat y) 1"
    and off = "\<lambda>y. set_y_plane (of_nat y) 0", OF set_y_plane_only_display set_y_plane_only_display]
lemmas sweep_z_trace = sweep_trace [where on = "\<lambda>z. set_z_plane (of_nat z) 1"
    and off = "\<lambda>z. set_z_plane (of_nat z) 0", OF set_z_plane_only_display set_z_plane_only_display]

lemma planes_trace:
  assumes "planes inp s = Returned r inp' t"
  shows "(\<exists>pre. inp = pre @ inp') \<and> (r \<noteq> 0 \<longrightarrow> by_button inp inp' s t)"
proof -
  let ?X = "sweep 10000 (\<lambda>x. set_x_plane (of_nat x) 1) (\<lambda>x. set_x_plane (of_nat x) 0) [0..<8]"
  let ?Y = "sweep 10000 (\<lambda>y. set_y_plane (of_nat y) 1) (\<lambda>y. set_y_plane (of_nat y) 0) [0..<8]"
  let ?Z = "sweep 10000 (\<lambda>z. set_z_plane (of_nat z) 1) (\<lambda>z. set_z_plane (of_nat z) 0) [0..<8]"
  have m: "mode (set_all 0 s) = mode s" by (rule set_all_fields)
  from assms obtain r1 inp1 s1 where x: "?X inp (set_all 0 s) = Returned r1 inp1 s1"
    by (cases "?X inp (set_all 0 s)") (auto simp: planes_def)
  note qx = sweep_x_Returned [OF x]
  have tx: "(\<exists>pre. inp = pre @ inp1) \<and> (r1 \<noteq> 0 \<longrightarrow> by_button inp inp1 s s1)"
    using sweep_x_trace [OF x] by_button_mode [OF m] by simp
  show ?thesis
  proof (cases "r1 = 0")
    case False
    with x assms have "r = 1" "inp' = inp1" "t = s1" by (simp_all add: planes_def)
    with tx False show ?thesis by simp
  next
    case True
    have m1: "mode s1 = mode s" using qx True m by simp
    from True x assms obtain r2 inp2 s2 where y: "?Y inp1 s1 = Returned r2 inp2 s2"
      by (cases "?Y inp1 s1") (auto simp: planes_def)
    note qy = sweep_y_Returned [OF y]
    have ty: "(\<exists>pre. inp = pre @ inp2) \<and> (r2 \<noteq> 0 \<longrightarrow> by_button inp inp2 s s2)"
      by (rule trace_seq [OF tx [THEN conjunct1] m1 sweep_y_trace [OF y]])
    show ?thesis
    proof (cases "r2 = 0")
      case False
      with x y True assms have "r = 1" "inp' = inp2" "t = s2" by (simp_all add: planes_def)
      with ty False show ?thesis by simp
    next
      case r2: True
      have m2: "mode s2 = mode s" using qy r2 m1 by simp
      from x y True r2 assms have z: "?Z inp2 s2 = Returned r inp' t" by (simp add: planes_def)
      show ?thesis by (rule trace_seq [OF ty [THEN conjunct1] m2 sweep_z_trace [OF z]])
    qed
  qed
qed

lemma dave_trace:
  assumes "dave inp s = Returned r inp' t"
  shows "(\<exists>pre. inp = pre @ inp') \<and> (r \<noteq> 0 \<longrightarrow> by_button inp inp' s t)"
proof -
  let ?S = "sweep 5000 (\<lambda>(c, y). character_on_y (of_nat y) (dave_glyphs ! c))
             (\<lambda>(c, y). set_y_plane (of_nat y) 0) glyph_order"
  have m: "mode (set_all 0 s) = mode s" by (rule set_all_fields)
  from assms obtain r1 inp1 s1 where x: "?S inp (set_all 0 s) = Returned r1 inp1 s1"
    by (cases "?S inp (set_all 0 s)") (auto simp: dave_def)
  note qx = sweep_Returned [OF dave_on dave_off x]
  have tx: "(\<exists>pre. inp = pre @ inp1) \<and> (r1 \<noteq> 0 \<longrightarrow> by_button inp inp1 s s1)"
    using sweep_trace [OF dave_on dave_off x] by_button_mode [OF m] by simp
  show ?thesis
  proof (cases "r1 = 0")
    case False
    with x assms have "r = 1" "inp' = inp1" "t = s1" by (simp_all add: dave_def)
    with tx False show ?thesis by simp
  next
    case True
    with x assms obtain r2 where p2: "pause 30000 inp1 (set_all 1 s1) = Returned r2 inp' t"
      and r: "r = (if r2 \<noteq> 0 then 1 else 0)"
      by (cases "pause 30000 inp1 (set_all 1 s1)") (auto simp: dave_def split: if_splits)
    have n: "mode (set_all 1 s1) = mode s"
      using set_all_fields(1) [of 1 s1] qx True m by simp
    have "(\<exists>pre. inp = pre @ inp') \<and> (r2 \<noteq> 0 \<longrightarrow> by_button inp inp' s t)"
      by (rule trace_seq [OF tx [THEN conjunct1] n pause_trace [OF p2]])
    with r show ?thesis by simp
  qed
qed


lemma by_button_pressed:
  "by_button inp inp' s t \<Longrightarrow> list_all (\<lambda>v. P4_2 v \<and> P4_3 v) inp \<Longrightarrow> False"
  unfolding by_button_def by auto

lemma dropped_trace:
  assumes "\<And>r. R = Returned r inp' t \<Longrightarrow>
      (\<exists>pre. inp = pre @ inp') \<and> (r \<noteq> 0 \<longrightarrow> by_button inp inp' s t) \<and> (r = 0 \<longrightarrow> mode t = mode s)"
    and "dropped R = Returned u inp' t"
  shows "(\<exists>pre. inp = pre @ inp') \<and> (mode t = mode s \<or> by_button inp inp' s t)"
proof -
  from assms(2) obtain r where "R = Returned r inp' t" by (cases R) auto
  from assms(1) [OF this] show ?thesis by (cases "r = 0") auto
qed

lemma dave_full:
  "dave inp s = Returned r inp' t \<Longrightarrow>
   (\<exists>pre. inp = pre @ inp') \<and> (r \<noteq> 0 \<longrightarrow> by_button inp inp' s t) \<and> (r = 0 \<longrightarrow> mode t = mode s)"
  using dave_trace [of inp s r inp' t] dave_Returned [of inp s r inp' t] by simp

lemma points_full:
  "points inp s = Returned r inp' t \<Longrightarrow>
   (\<exists>pre. inp = pre @ inp') \<and> (r \<noteq> 0 \<longrightarrow> by_button inp inp' s t) \<and> (r = 0 \<longrightarrow> mode t = mode s)"
  using points_trace [of inp s r inp' t] points_Returned [of inp s r inp' t] by simp

lemma planes_full:
  "planes inp s = Returned r inp' t \<Longrightarrow>
   (\<exists>pre. inp = pre @ inp') \<and> (r \<noteq> 0 \<longrightarrow> by_button inp inp' s t) \<and> (r = 0 \<longrightarrow> mode t = mode s)"
  using planes_trace [of inp s r inp' t] planes_Returned [of inp s r inp' t] by simp

lemma all_full:
  "all inp s = Returned r inp' t \<Longrightarrow>
   (\<exists>pre. inp = pre @ inp') \<and> (r \<noteq> 0 \<longrightarrow> by_button inp inp' s t) \<and> (r = 0 \<longrightarrow> mode t = mode s)"
  using all_trace [of inp s r inp' t] all_Returned [of inp s r inp' t] by simp

lemma full_seq:
  assumes "(\<exists>pre. inp = pre @ inp1) \<and> (0 \<noteq> (0 :: int) \<longrightarrow> by_button inp inp1 s s1) \<and>
      ((0 :: int) = 0 \<longrightarrow> mode s1 = mode s)"
    and "(\<exists>pre. inp1 = pre @ inp') \<and> (r \<noteq> 0 \<longrightarrow> by_button inp1 inp' s1 t) \<and>
      (r = 0 \<longrightarrow> mode t = mode s1)"
  shows "(\<exists>pre. inp = pre @ inp') \<and> (r \<noteq> (0 :: int) \<longrightarrow> by_button inp inp' s t) \<and>
      (r = 0 \<longrightarrow> mode t = mode s)"
proof -
  from assms(1) have a: "\<exists>pre. inp = pre @ inp1" and m: "mode s1 = mode s" by simp_all
  from assms(2) have b: "(\<exists>pre. inp1 = pre @ inp') \<and> (r \<noteq> 0 \<longrightarrow> by_button inp1 inp' s1 t)"
    by simp
  from trace_seq [OF a m b] assms(2) m show ?thesis by simp
qed

lemma dispatch_Starved:
  assumes "dispatch inp s = Starved t"
  shows "mode t = mode s"
proof -
  consider "mode s = 0" | "mode s = 1" | "mode s = 2" | "mode s = 3" | "mode s = 4"
    | "mode s \<noteq> 0 \<and> mode s \<noteq> 1 \<and> mode s \<noteq> 2 \<and> mode s \<noteq> 3 \<and> mode s \<noteq> 4"
    by blast
  then show ?thesis
  proof cases
    case 1
    with assms have "dave inp s = Starved t" by (simp add: dispatch_def dropped_cases)
    then show ?thesis using dave_Starved by blast
  next
    case 2
    with assms have "points inp s = Starved t" by (simp add: dispatch_def dropped_cases)
    then show ?thesis using points_Starved by blast
  next
    case 3
    with assms have "planes inp s = Starved t" by (simp add: dispatch_def dropped_cases)
    then show ?thesis using planes_Starved by blast
  next
    case 4
    with assms have "all inp s = Starved t" by (simp add: dispatch_def dropped_cases)
    then show ?thesis using all_Starved by blast
  next
    case 5
    show ?thesis
    proof (cases "dave inp s")
      case (Starved t1)
      with 5 assms have "dave inp s = Starved t" by (simp add: dispatch_def)
      then show ?thesis using dave_Starved by blast
    next
      case d: (Returned r1 inp1 s1)
      with 5 assms have r1: "r1 = 0" by (auto simp: dispatch_def split: if_splits)
      note qd = dave_Returned [OF d [unfolded r1]]
      show ?thesis
      proof (cases "points inp1 s1")
        case (Starved t2)
        with 5 d r1 assms have "points inp1 s1 = Starved t" by (simp add: dispatch_def)
        from points_Starved [OF this] qd show ?thesis by simp
      next
        case p: (Returned r2 inp2 s2)
        with 5 d r1 assms have r2: "r2 = 0" by (auto simp: dispatch_def split: if_splits)
        note qp = points_Returned [OF p [unfolded r2]]
        show ?thesis
        proof (cases "planes inp2 s2")
          case (Starved t3)
          with 5 d r1 p r2 assms have "planes inp2 s2 = Starved t" by (simp add: dispatch_def)
          from planes_Starved [OF this] qd qp show ?thesis by simp
        next
          case l: (Returned r3 inp3 s3)
          with 5 d r1 p r2 assms have r3: "r3 = 0" by (auto simp: dispatch_def split: if_splits)
          note ql = planes_Returned [OF l [unfolded r3]]
          from 5 d r1 p r2 l r3 assms have "all inp3 s3 = Starved t"
            by (simp add: dispatch_def dropped_cases)
          from all_Starved [OF this] qd qp ql show ?thesis by simp
        qed
      qed
    qed
  next
    case 6
    with assms show ?thesis by (simp add: dispatch_def)
  qed
qed


lemma dispatch_trace:
  assumes "dispatch inp s = Returned u inp' t"
  shows "(\<exists>pre. inp = pre @ inp') \<and> (mode t = mode s \<or> by_button inp inp' s t)"
proof -
  consider "mode s = 0" | "mode s = 1" | "mode s = 2" | "mode s = 3" | "mode s = 4"
    | "mode s \<noteq> 0 \<and> mode s \<noteq> 1 \<and> mode s \<noteq> 2 \<and> mode s \<noteq> 3 \<and> mode s \<noteq> 4"
    by blast
  then show ?thesis
  proof cases
    case 1
    with assms have "dropped (dave inp s) = Returned u inp' t" by (simp add: dispatch_def)
    then show ?thesis by (rule dropped_trace [rotated]) (rule dave_full)
  next
    case 2
    with assms have "dropped (points inp s) = Returned u inp' t" by (simp add: dispatch_def)
    then show ?thesis by (rule dropped_trace [rotated]) (rule points_full)
  next
    case 3
    with assms have "dropped (planes inp s) = Returned u inp' t" by (simp add: dispatch_def)
    then show ?thesis by (rule dropped_trace [rotated]) (rule planes_full)
  next
    case 4
    with assms have "dropped (all inp s) = Returned u inp' t" by (simp add: dispatch_def)
    then show ?thesis by (rule dropped_trace [rotated]) (rule all_full)
  next
    case 5
    from 5 assms obtain r1 inp1 s1 where d: "dave inp s = Returned r1 inp1 s1"
      by (cases "dave inp s") (auto simp: dispatch_def)
    note fd = dave_full [OF d]
    show ?thesis
    proof (cases "r1 = 0")
      case False
      with 5 d assms have "inp' = inp1" "t = s1" by (simp_all add: dispatch_def)
      with fd False show ?thesis by simp
    next
      case r1: True
      from 5 d r1 assms obtain r2 inp2 s2 where p: "points inp1 s1 = Returned r2 inp2 s2"
        by (cases "points inp1 s1") (auto simp: dispatch_def)
      have fp: "(\<exists>pre. inp = pre @ inp2) \<and> (r2 \<noteq> 0 \<longrightarrow> by_button inp inp2 s s2) \<and>
          (r2 = 0 \<longrightarrow> mode s2 = mode s)"
        by (rule full_seq [OF fd [unfolded r1] points_full [OF p]])
      show ?thesis
      proof (cases "r2 = 0")
        case False
        with 5 d r1 p assms have "inp' = inp2" "t = s2" by (simp_all add: dispatch_def)
        with fp False show ?thesis by simp
      next
        case r2: True
        from 5 d r1 p r2 assms obtain r3 inp3 s3 where l: "planes inp2 s2 = Returned r3 inp3 s3"
          by (cases "planes inp2 s2") (auto simp: dispatch_def)
        have fl: "(\<exists>pre. inp = pre @ inp3) \<and> (r3 \<noteq> 0 \<longrightarrow> by_button inp inp3 s s3) \<and>
            (r3 = 0 \<longrightarrow> mode s3 = mode s)"
          by (rule full_seq [OF fp [unfolded r2] planes_full [OF l]])
        show ?thesis
        proof (cases "r3 = 0")
          case False
          with 5 d r1 p r2 l assms have "inp' = inp3" "t = s3" by (simp_all add: dispatch_def)
          with fl False show ?thesis by simp
        next
          case r3: True
          from 5 d r1 p r2 l r3 assms obtain r4 where a: "all inp3 s3 = Returned r4 inp' t"
            by (cases "all inp3 s3") (auto simp: dispatch_def)
          have "(\<exists>pre. inp = pre @ inp') \<and> (r4 \<noteq> 0 \<longrightarrow> by_button inp inp' s t) \<and>
            (r4 = 0 \<longrightarrow> mode t = mode s)"
            by (rule full_seq [OF fl [unfolded r3] all_full [OF a]])
          then show ?thesis by (cases "r4 = 0") auto
        qed
      qed
    qed
  next
    case 6
    with assms have "inp' = inp" "t = s" by (simp_all add: dispatch_def)
    then have "inp = [] @ inp'" "mode t = mode s" by simp_all
    then show ?thesis by blast
  qed
qed

lemma main_loop_quiet:
  "list_all (\<lambda>v. P4_2 v \<and> P4_3 v) inp \<Longrightarrow>
   main_loop n inp s = Returned u inp' t \<or> main_loop n inp s = Starved t \<Longrightarrow> mode t = mode s"
proof (induction n arbitrary: inp s)
  case 0
  then show ?case by simp
next
  case (Suc n)
  show ?case
  proof (cases "dispatch inp s")
    case (Starved t1)
    with Suc.prems have "dispatch inp s = Starved t" by simp
    then show ?thesis by (rule dispatch_Starved)
  next
    case (Returned u1 inp1 s1)
    from dispatch_trace [OF Returned] by_button_pressed [OF _ Suc.prems(1), of inp1 s s1]
    obtain pre where i: "inp = pre @ inp1" and m: "mode s1 = mode s" by blast
    from i Suc.prems(1) have q: "list_all (\<lambda>v. P4_2 v \<and> P4_3 v) inp1" by simp
    from Returned Suc.prems(2) have "main_loop n inp1 s1 = Returned u inp' t \<or>
        main_loop n inp1 s1 = Starved t" by simp
    from Suc.IH [OF q this] m show ?thesis by simp
  qed
qed

lemma dave_mode:
  "(dave inp s = Returned 0 inp' t \<or> dave inp s = Starved t \<longrightarrow> mode t = mode s) \<and>
   (dave inp s = Returned r inp' t \<and> r \<noteq> 0 \<longrightarrow> by_button inp inp' s t)"
  using dave_Returned [of inp s 0 inp' t] dave_Starved [of inp s t] dave_trace [of inp s r inp' t]
  by blast

lemma points_mode:
  "(points inp s = Returned 0 inp' t \<or> points inp s = Starved t \<longrightarrow> mode t = mode s) \<and>
   (points inp s = Returned r inp' t \<and> r \<noteq> 0 \<longrightarrow> by_button inp inp' s t)"
  using points_Returned [of inp s 0 inp' t] points_Starved [of inp s t] points_trace [of inp s r inp' t]
  by blast

lemma planes_mode:
  "(planes inp s = Returned 0 inp' t \<or> planes inp s = Starved t \<longrightarrow> mode t = mode s) \<and>
   (planes inp s = Returned r inp' t \<and> r \<noteq> 0 \<longrightarrow> by_button inp inp' s t)"
  using planes_Returned [of inp s 0 inp' t] planes_Starved [of inp s t] planes_trace [of inp s r inp' t]
  by blast

lemma all_mode:
  "(all inp s = Returned 0 inp' t \<or> all inp s = Starved t \<longrightarrow> mode t = mode s) \<and>
   (all inp s = Returned r inp' t \<and> r \<noteq> 0 \<longrightarrow> by_button inp inp' s t)"
  using all_Returned [of inp s 0 inp' t] all_Starved [of inp s t] all_trace [of inp s r inp' t]
  by blast

lemma pause_by_button:
  "pause i inp s = Returned r inp' t \<and> r \<noteq> 0 \<longrightarrow> by_button inp inp' s t"
  using pause_trace [of i inp s r inp' t] by blast

lemma dispatch_writes:
  "(dispatch inp s = Starved t \<longrightarrow> mode t = mode s) \<and>
   (dispatch inp s = Returned u inp' t \<longrightarrow> mode t = mode s \<or> by_button inp inp' s t)"
  using dispatch_Starved [of inp s t] dispatch_trace [of inp s u inp' t] by blast

lemma main_loop_no_press:
  "list_all (\<lambda>v. P4_2 v \<and> P4_3 v) inp \<and>
   (main_loop n inp s = Returned u inp' t \<or> main_loop n inp s = Starved t) \<longrightarrow>
     mode t = mode s"
  using main_loop_quiet [of inp n s u inp' t] by blast

text \<open>
  C6. A poll of button 3 that finds the button down and its latch clear sets \<open>mode\<close>
  to (mode + 1) modulo 5, which is 0 from mode 4; a poll of button 2 that finds the
  button down and its latch clear sets \<open>mode\<close> to 0 whatever it was; in both cases
  \<open>pause\<close> returns 1 there. Nothing else writes \<open>mode\<close>: a poll that does not
  fire, button 1, the timer handler, the delay and the display primitives leave it
  as it was, and it is 0 at reset. A call of \<open>pause\<close> or of a display routine
  that returns 0 or runs out of samples leaves it unchanged, and one that returns
  non-zero has just read a sample with button 2 down and left \<open>mode\<close> 0, or with
  button 3 down and left it advanced by one modulo 5. A pass of the main loop leaves
  it unchanged or changed in this way by a button; over any number of passes it stays
  in 0..4, and it does not change at all on samples where the buttons 2 and 3 are
  never down.
\<close>

theorem mode_writes:
  "(\<not> P4_3 v \<and> \<not> p43key s \<longrightarrow>
      fst (button3 v s) \<and> mode (snd (button3 v s)) = (mode s + 1) smod 5 \<and>
      (mode s = 4 \<longrightarrow> mode (snd (button3 v s)) = 0)) \<and>
   (\<not> P4_2 v \<and> \<not> p42key s \<longrightarrow> fst (button2 v s) \<and> mode (snd (button2 v s)) = 0) \<and>
   (i \<noteq> 0 \<and> \<not> pause_flag s \<and> P4_1 v1 \<and> P4_2 v2 \<and> \<not> P4_3 v \<and> \<not> p43key s \<longrightarrow>
      (\<exists>t. pause i (v1 # v2 # v # rest) s = Returned 1 rest t \<and>
         mode t = (mode s + 1) smod 5)) \<and>
   (i \<noteq> 0 \<and> \<not> pause_flag s \<and> P4_1 v1 \<and> \<not> P4_2 v \<and> \<not> p42key s \<longrightarrow>
      (\<exists>t. pause i (v1 # v # rest) s = Returned 1 rest t \<and> mode t = 0)) \<and>
   (\<not> fst (button3 v s) \<longrightarrow> mode (snd (button3 v s)) = mode s) \<and>
   (\<not> fst (button2 v s) \<longrightarrow> mode (snd (button2 v s)) = mode s) \<and>
   (pause i inp s = Returned 0 inp' t \<or> pause i inp s = Starved t \<longrightarrow> mode t = mode s) \<and>
   (pause i inp s = Returned 1 inp' t \<longrightarrow> mode t = 0 \<or> mode t = (mode s + 1) smod 5) \<and>
   (dispatch inp s = Returned u inp' t \<or> dispatch inp s = Starved t \<longrightarrow>
      mode t = mode s \<or> mode t = 0 \<or> mode t = (mode s + 1) smod 5) \<and>
   (0 \<le> mode s \<and> mode s < 5 \<and>
    (main_loop n inp s = Returned u inp' t \<or> main_loop n inp s = Starved t) \<longrightarrow>
      0 \<le> mode t \<and> mode t < 5) \<and>
   mode (init_cube d) = 0 \<and>
   (mode (button1 v s) = mode s \<and> mode (snd (timer_isr s)) = mode s \<and>
    mode (delay k s) = mode s \<and> mode (set_all b s) = mode s \<and>
    mode (set_x_plane x b s) = mode s \<and> mode (set_y_plane y b s) = mode s \<and>
    mode (set_z_plane z b s) = mode s \<and> mode (set_point x y z b s) = mode s \<and>
    mode (character_on_y y c s) = mode s) \<and>
   (pause i inp s = Returned r inp' t \<and> r \<noteq> 0 \<longrightarrow> by_button inp inp' s t) \<and>
   ((dave inp s = Returned 0 inp' t \<or> dave inp s = Starved t \<longrightarrow> mode t = mode s) \<and>
    (dave inp s = Returned r inp' t \<and> r \<noteq> 0 \<longrightarrow> by_button inp inp' s t)) \<and>
   ((points inp s = Returned 0 inp' t \<or> points inp s = Starved t \<longrightarrow> mode t = mode s) \<and>
    (points inp s = Returned r inp' t \<and> r \<noteq> 0 \<longrightarrow> by_button inp inp' s t)) \<and>
   ((planes inp s = Returned 0 inp' t \<or> planes inp s = Starved t \<longrightarrow> mode t = mode s) \<and>
    (planes inp s = Returned r inp' t \<and> r \<noteq> 0 \<longrightarrow> by_button inp inp' s t)) \<and>
   ((all inp s = Returned 0 inp' t \<or> all inp s = Starved t \<longrightarrow> mode t = mode s) \<and>
    (all inp s = Returned r inp' t \<and> r \<noteq> 0 \<longrightarrow> by_button inp inp' s t)) \<and>
   ((dispatch inp s = Starved t \<longrightarrow> mode t = mode s) \<and>
    (dispatch inp s = Returned u inp' t \<longrightarrow> mode t = mode s \<or> by_button inp inp' s t)) \<and>
   (list_all (\<lambda>v. P4_2 v \<and> P4_3 v) inp \<and>
    (main_loop n inp s = Returned u inp' t \<or> main_loop n inp s = Starved t) \<longrightarrow>
      mode t = mode s)"
  apply (rule conjI, rule button3_writes)
  apply (rule conjI, rule button2_writes)
  apply (rule conjI, rule pause_advance)
  apply (rule conjI, rule pause_reset)
  apply (rule conjI, rule button3_quiet)
  apply (rule conjI, rule button2_quiet)
  apply (rule conjI, rule pause_keeps_mode)
  apply (rule conjI, rule pause_changes_mode)
  apply (rule conjI, rule dispatch_mode)
  apply (rule conjI, rule main_loop_mode)
  apply (rule conjI, simp add: init_cube_def)
  apply (rule conjI, rule others_keep_mode)
  apply (rule conjI, rule pause_by_button)
  apply (rule conjI, rule dave_mode)
  apply (rule conjI, rule points_mode)
  apply (rule conjI, rule planes_mode)
  apply (rule conjI, rule all_mode)
  apply (rule conjI, rule dispatch_writes)
  apply (rule main_loop_no_press)
  done

theorem mode_writes_witness:
  "(fst (button3 0xF7 (dark_cube\<lparr>mode := 4\<rparr>)) \<and>
    mode (snd (button3 0xF7 (dark_cube\<lparr>mode := 4\<rparr>))) = 0) \<and>
   (fst (button2 0xFB (dark_cube\<lparr>mode := 3\<rparr>)) \<and>
    mode (snd (button2 0xFB (dark_cube\<lparr>mode := 3\<rparr>))) = 0) \<and>
   (\<exists>t. pause 2 [0xFF, 0xFF, 0xF7] (dark_cube\<lparr>mode := 4\<rparr>) = Returned 1 [] t \<and>
      mode t = (mode (dark_cube\<lparr>mode := 4\<rparr>) + 1) smod 5) \<and>
   (\<exists>t. pause 2 [0xFF, 0xFB] (dark_cube\<lparr>mode := 3\<rparr>) = Returned 1 [] t \<and> mode t = 0) \<and>
   mode (dark_cube\<lparr>elapsed := 202\<rparr>) = mode dark_cube \<and>
   (\<exists>t. dave [0xFF, 0xFB] (dark_cube\<lparr>mode := 3\<rparr>) = Returned 1 [] t \<and>
      by_button [0xFF, 0xFB] [] (dark_cube\<lparr>mode := 3\<rparr>) t) \<and>
   (\<exists>t. dispatch [0xFF, 0xFF] dark_cube = Starved t \<and> mode t = mode dark_cube) \<and>
   (\<exists>t. main_loop (Suc 0) [0xFF, 0xFF] dark_cube = Starved t \<and> mode t = mode dark_cube)"
proof (intro conjI)
  let ?s4 = "dark_cube\<lparr>mode := 4\<rparr>"
  let ?s3 = "dark_cube\<lparr>mode := 3\<rparr>"
  have h3: "\<not> P4_3 0xF7 \<and> \<not> p43key ?s4" by (simp add: P4_samples dark_cube_simps)
  note A = mode_writes [where v = "0xF7" and s = ?s4, THEN conjunct1, THEN mp, OF h3]
  from A show "fst (button3 0xF7 ?s4)" by (rule conjunct1)
  from A show "mode (snd (button3 0xF7 ?s4)) = 0" by simp
  have h2: "\<not> P4_2 0xFB \<and> \<not> p42key ?s3" by (simp add: P4_samples dark_cube_simps)
  note B = mode_writes [where v = "0xFB" and s = ?s3, THEN conjunct2, THEN conjunct1,
      THEN mp, OF h2]
  from B show "fst (button2 0xFB ?s3)" by (rule conjunct1)
  from B show "mode (snd (button2 0xFB ?s3)) = 0" by (rule conjunct2)
  have ha: "(2 :: 16 word) \<noteq> 0 \<and> \<not> pause_flag ?s4 \<and> P4_1 0xFF \<and> P4_2 0xFF \<and> \<not> P4_3 0xF7 \<and>
      \<not> p43key ?s4"
    by (simp add: P4_samples dark_cube_simps)
  show "\<exists>t. pause 2 [0xFF, 0xFF, 0xF7] ?s4 = Returned 1 [] t \<and>
      mode t = (mode ?s4 + 1) smod 5"
    by (rule mode_writes [where i = 2 and v = "0xF7" and s = ?s4 and ?v1.0 = "0xFF"
          and ?v2.0 = "0xFF" and rest = "[]", THEN conjunct2, THEN conjunct2, THEN conjunct1,
          THEN mp, OF ha])
  have hr: "(2 :: 16 word) \<noteq> 0 \<and> \<not> pause_flag ?s3 \<and> P4_1 0xFF \<and> \<not> P4_2 0xFB \<and> \<not> p42key ?s3"
    by (simp add: P4_samples dark_cube_simps)
  show "\<exists>t. pause 2 [0xFF, 0xFB] ?s3 = Returned 1 [] t \<and> mode t = 0"
    by (rule mode_writes [where i = 2 and v = "0xFB" and s = ?s3 and ?v1.0 = "0xFF"
          and rest = "[]", THEN conjunct2, THEN conjunct2, THEN conjunct2, THEN conjunct1,
          THEN mp, OF hr])
  have p: "pause 2 [0xFD, 0xFD, 0xFF, 0xFD, 0xFF, 0xFF, 0xFF, 0xFF, 0xFF] dark_cube =
      Returned 0 [] (dark_cube\<lparr>elapsed := 202\<rparr>) \<or>
    pause 2 [0xFD, 0xFD, 0xFF, 0xFD, 0xFF, 0xFF, 0xFF, 0xFF, 0xFF] dark_cube =
      Starved (dark_cube\<lparr>elapsed := 202\<rparr>)"
    using episode_run by simp
  show "mode (dark_cube\<lparr>elapsed := 202\<rparr>) = mode dark_cube"
    by (rule mode_writes [where i = 2 and s = dark_cube and inp' = "[]"
          and inp = "[0xFD, 0xFD, 0xFF, 0xFD, 0xFF, 0xFF, 0xFF, 0xFF, 0xFF]"
          and t = "dark_cube\<lparr>elapsed := 202\<rparr>",
          THEN conjunct2, THEN conjunct2, THEN conjunct2, THEN conjunct2, THEN conjunct2,
          THEN conjunct2, THEN conjunct1, THEN mp, OF p])
  let ?d = "\<lambda>s. (character_on_y 0 (dave_glyphs ! 0) (set_all 0 s))
      \<lparr>elapsed := elapsed s + 101, p41key := False, p42key := True, mode := 0\<rparr>"
  have one: "(1 :: int) \<noteq> 0" by simp
  have d: "dave [0xFF, 0xFB] ?s3 = Returned 1 [] (?d ?s3)"
    by (rule dave_pressed2) (simp_all add: dark_cube_simps)
  have "dave [0xFF, 0xFB] ?s3 = Returned 1 [] (?d ?s3) \<and>
      by_button [0xFF, 0xFB] [] ?s3 (?d ?s3)"
    by (rule conjI [OF d mode_writes [where inp = "[0xFF, 0xFB]" and s = ?s3 and r = 1
          and inp' = "[]" and t = "?d ?s3", THEN conjunct2, THEN conjunct2, THEN conjunct2, THEN conjunct2, THEN conjunct2, THEN conjunct2, THEN conjunct2, THEN conjunct2, THEN conjunct2, THEN conjunct2, THEN conjunct2, THEN conjunct2, THEN conjunct2, THEN conjunct1, THEN conjunct2, THEN mp,
          OF conjI [OF d one]]])
  then show "\<exists>t. dave [0xFF, 0xFB] ?s3 = Returned 1 [] t \<and> by_button [0xFF, 0xFB] [] ?s3 t"
    by (rule exI [of _ "?d ?s3"])
  let ?e = "(character_on_y 0 (dave_glyphs ! 0) (set_all 0 dark_cube))
      \<lparr>elapsed := elapsed dark_cube + 1, p41key := False\<rparr>"
  have r: "dave [0xFF, 0xFF] dark_cube = Starved ?e"
    by (rule dave_runs_out) (simp add: dark_cube_simps)
  then have x: "dispatch [0xFF, 0xFF] dark_cube = Starved ?e"
    by (simp add: dispatch_def dark_cube_simps)
  have "dispatch [0xFF, 0xFF] dark_cube = Starved ?e \<and> mode ?e = mode dark_cube"
    by (rule conjI [OF x mode_writes [where inp = "[0xFF, 0xFF]" and s = dark_cube
          and t = ?e, THEN conjunct2, THEN conjunct2, THEN conjunct2, THEN conjunct2, THEN conjunct2, THEN conjunct2, THEN conjunct2, THEN conjunct2, THEN conjunct2, THEN conjunct2, THEN conjunct2, THEN conjunct2, THEN conjunct2, THEN conjunct2, THEN conjunct2, THEN conjunct2, THEN conjunct2, THEN conjunct1, THEN conjunct1, THEN mp, OF x]])
  then show "\<exists>t. dispatch [0xFF, 0xFF] dark_cube = Starved t \<and> mode t = mode dark_cube"
    by (rule exI [of _ ?e])
  have y: "main_loop (Suc 0) [0xFF, 0xFF] dark_cube = Starved ?e" using x by simp
  have q: "list_all (\<lambda>v. P4_2 v \<and> P4_3 v) [0xFF, 0xFF] \<and>
      (main_loop (Suc 0) [0xFF, 0xFF] dark_cube = Returned () [] ?e \<or>
       main_loop (Suc 0) [0xFF, 0xFF] dark_cube = Starved ?e)"
    using y by (simp add: P4_samples)
  have "main_loop (Suc 0) [0xFF, 0xFF] dark_cube = Starved ?e \<and> mode ?e = mode dark_cube"
    by (rule conjI [OF y mode_writes [where inp = "[0xFF, 0xFF]" and s = dark_cube
          and t = ?e and n = "Suc 0" and u = "()" and inp' = "[]", THEN conjunct2, THEN conjunct2, THEN conjunct2, THEN conjunct2, THEN conjunct2, THEN conjunct2, THEN conjunct2, THEN conjunct2, THEN conjunct2, THEN conjunct2, THEN conjunct2, THEN conjunct2, THEN conjunct2, THEN conjunct2, THEN conjunct2, THEN conjunct2, THEN conjunct2, THEN conjunct2, THEN mp, OF q]])
  then show "\<exists>t. main_loop (Suc 0) [0xFF, 0xFF] dark_cube = Starved t \<and>
      mode t = mode dark_cube"
    by (rule exI [of _ ?e])
qed

end
